theory Spec2Isabelle
  imports Main "HOL-Library.Sublist" "HOL-Library.Word" "HOL-Library.Signed_Division"
begin

section \<open>Rows, metadata and the processor base\<close>

text \<open>
  A row is kept abstract (type variable \<open>'r\<close>), an error as well (\<open>'e\<close>).
  \<open>ProducerMetadata\<close> is the Go struct of the same name: the field \<open>Err\<close> is nil
  (\<open>None\<close>) or an error; the remaining fields are collapsed into \<open>Info\<close>.
\<close>

datatype 'e ProducerMetadata = ProducerMetadata (Err: "'e option") (Info: "string list")

text \<open>
  What a \<open>RowSource\<close> still has to deliver: each call of its \<open>Next()\<close> takes the head,
  a row or a unit of metadata; the empty list is the exhausted source, whose \<open>Next()\<close>
  returns (nil, nil).
\<close>

datatype ('r, 'e) item = Row 'r | Meta "'e ProducerMetadata"

type_synonym ('r, 'e) RowSource = "('r, 'e) item list"

datatype procState = StateRunning | StateDraining | StateExhausted

record ('r, 'e) ProcessorBase =
  State :: procState
  inputsToDrain :: "('r, 'e) RowSource list"
  trailingMeta :: "'e ProducerMetadata list"
  trailingMetaCallback :: "'e ProducerMetadata list"

text \<open>
  Modelled from the spec: \<open>ProcessorBase.MoveToDraining\<close> is not among the sources.
  Section 4.1: Draining is "entered via MoveToDraining(err); err may be nil (clean EOF) or
  non-nil (failure)", and the own error is the first metadata emitted while draining.
  A processor that has left Running stays where it is.
\<close>

definition MoveToDraining ::
  "'e option \<Rightarrow> ('r, 'e) ProcessorBase \<Rightarrow> ('r, 'e) ProcessorBase" where
  "MoveToDraining err pb =
     (if State pb \<noteq> StateRunning then pb
      else pb\<lparr>State := StateDraining,
              trailingMeta := trailingMeta pb @
                (case err of None \<Rightarrow> [] | Some e \<Rightarrow> [ProducerMetadata (Some e) []])\<rparr>)"

text \<open>
  Modelled from the spec: draining the inputs ("repeatedly calling their Next() and
  discarding rows until each reports exhaustion, collecting their metadata"). The result
  is what is left of the inputs and the first metadata met, if any.
\<close>

fun drainInputs ::
  "('r, 'e) RowSource list \<Rightarrow> ('r, 'e) RowSource list \<times> 'e ProducerMetadata option" where
  "drainInputs [] = ([], None)"
| "drainInputs ([] # rest) = drainInputs rest"
| "drainInputs ((Row r # src) # rest) = drainInputs (src # rest)"
| "drainInputs ((Meta md # src) # rest) = (src # rest, Some md)"

text \<open>
  Modelled from the spec: \<open>ProcessorBase.DrainHelper\<close> is not among the sources.
  Section 4.1: a draining processor "emits one unit of metadata per call (own error first,
  then collected trailing metadata, then any registered trailing-callback metadata) until
  none remains, then moves to Exhausted"; "Exhausted: terminal; Next() returns (nil, nil)
  forever". The spec does not say what the helper does in Running (no \<open>Next\<close> of the
  sources calls it there); the model leaves the processor untouched.
\<close>

definition DrainHelper ::
  "('r, 'e) ProcessorBase \<Rightarrow> ('r, 'e) ProcessorBase \<times> 'e ProducerMetadata option" where
  "DrainHelper pb =
     (case State pb of
        StateRunning \<Rightarrow> (pb, None)
      | StateExhausted \<Rightarrow> (pb, None)
      | StateDraining \<Rightarrow>
          (case trailingMeta pb of
             md # rest \<Rightarrow> (pb\<lparr>trailingMeta := rest\<rparr>, Some md)
           | [] \<Rightarrow>
               (case drainInputs (inputsToDrain pb) of
                  (ins, Some md) \<Rightarrow> (pb\<lparr>inputsToDrain := ins\<rparr>, Some md)
                | (ins, None) \<Rightarrow>
                    (case trailingMetaCallback pb of
                       md # rest \<Rightarrow>
                         (pb\<lparr>inputsToDrain := ins, trailingMetaCallback := rest\<rparr>, Some md)
                     | [] \<Rightarrow> (pb\<lparr>State := StateExhausted, inputsToDrain := ins\<rparr>, None)))))"

section \<open>The merge joiner\<close>

datatype JoinType =
  InnerJoin | LeftOuterJoin | RightOuterJoin | FullOuterJoin
| LeftSemiJoin | LeftAntiJoin | IntersectAllJoin | ExceptAllJoin

datatype joinSide = leftSide | rightSide

text \<open>
  Modelled from the spec: \<open>JoinType.IsSetOpJoin\<close> is not among the sources. The comment at
  its call in \<open>nextRow\<close> ("For INTERSECT ALL and EXCEPT ALL") and section 4.3 name the two
  set operations.
\<close>

definition IsSetOpJoin :: "JoinType \<Rightarrow> bool" where
  "IsSetOpJoin jt = (jt = IntersectAllJoin \<or> jt = ExceptAllJoin)"

text \<open>
  Modelled from the spec: \<open>shouldEmitUnmatchedRow\<close> is not among the sources. Section 4.3,
  steps 3 and 4, and the comments at its calls in \<open>nextRow\<close>: unmatched left rows for left
  outer, full outer, left anti and EXCEPT ALL; unmatched right rows for right and full
  outer.
\<close>

definition shouldEmitUnmatchedRow :: "joinSide \<Rightarrow> JoinType \<Rightarrow> bool" where
  "shouldEmitUnmatchedRow side jt =
     (case side of
        leftSide \<Rightarrow> jt = LeftOuterJoin \<or> jt = FullOuterJoin \<or> jt = LeftAntiJoin \<or> jt = ExceptAllJoin
      | rightSide \<Rightarrow> jt = RightOuterJoin \<or> jt = FullOuterJoin)"

text \<open>
  A Go slice of rows is nil (\<open>None\<close>) or a list; \<open>len\<close> of the nil slice is 0.
\<close>

type_synonym 'r rows = "'r list option"

fun len :: "'r rows \<Rightarrow> nat" where
  "len None = 0"
| "len (Some xs) = length xs"

fun at :: "'r rows \<Rightarrow> nat \<Rightarrow> 'r" where
  "at rs i = the rs ! i"

text \<open>
  The struct \<open>mergeJoiner\<close>. The collaborators that are not among the sources are fields
  that the model takes as given:
  \<^item> \<open>render\<close> (of \<open>joinerBase\<close>): an error, no row (the ON condition failed) or the
    joined row;
  \<open>renderUnmatchedRow\<close> (of \<open>joinerBase\<close>): the row for an unmatched row of one side;
  \<^item> \<open>cancelChecker\<close>: the results of the coming calls of \<open>Check()\<close>, nil once the list
    is used up;
  \<^item> \<open>streamMerger\<close>: the results of the coming calls of \<open>NextBatch\<close> (left rows, right
    rows, metadata); (nil, nil, nil) once the list is used up.
  \<open>leftIdx\<close>, \<open>rightIdx\<close> and \<open>matchedRightCount\<close> are Go ints that only count up from
  0 to at most a batch length; they are natural numbers here.
\<close>

type_synonym ('r, 'e) batch = "'r rows \<times> 'r rows \<times> 'e ProducerMetadata option"

record ('r, 'e) mergeJoiner =
  base :: "('r, 'e) ProcessorBase"
  joinType :: JoinType
  render :: "'r \<Rightarrow> 'r \<Rightarrow> 'e + 'r option"
  renderUnmatchedRow :: "'r \<Rightarrow> joinSide \<Rightarrow> 'r"
  cancelChecker :: "'e option list"
  leftRows :: "'r rows"
  rightRows :: "'r rows"
  leftIdx :: nat
  rightIdx :: nat
  emitUnmatchedRight :: bool
  matchedRight :: "nat set"
  matchedRightCount :: nat
  streamMerger :: "('r, 'e) batch list"

definition Check :: "('r, 'e) mergeJoiner \<Rightarrow> ('r, 'e) mergeJoiner \<times> 'e option" where
  "Check m = (case cancelChecker m of
                [] \<Rightarrow> (m, None)
              | c # cs \<Rightarrow> (m\<lparr>cancelChecker := cs\<rparr>, c))"

definition NextBatch :: "('r, 'e) mergeJoiner \<Rightarrow> ('r, 'e) mergeJoiner \<times> ('r, 'e) batch" where
  "NextBatch m = (case streamMerger m of
                    [] \<Rightarrow> (m, (None, None, None))
                  | b # bs \<Rightarrow> (m\<lparr>streamMerger := bs\<rparr>, b))"

text \<open>
  How a loop of \<open>nextRow\<close> ends: with a \<open>return\<close> of the function, or by handing control
  to the statement after it (the loop condition failed, or a \<open>break\<close>).
\<close>

datatype ('r, 'e) exit = Return "'r option" "'e ProducerMetadata option" | Proceed

text \<open>The innermost loop of \<open>nextRow\<close>, over the right rows of the batch, for the left row \<open>lrow\<close>.\<close>

function rightLoop ::
  "('r, 'e) mergeJoiner \<Rightarrow> 'r \<Rightarrow> ('r, 'e) mergeJoiner \<times> ('r, 'e) exit" where
  "rightLoop m lrow =
     (if rightIdx m < len (rightRows m) then
        (let ridx = rightIdx m;
             m = m\<lparr>rightIdx := rightIdx m + 1\<rparr>
         in case render m lrow (at (rightRows m) ridx) of
              Inl err \<Rightarrow> (m, Return None (Some (ProducerMetadata (Some err) [])))
            | Inr None \<Rightarrow> rightLoop m lrow
            | Inr (Some renderedRow) \<Rightarrow>
                (let m = m\<lparr>matchedRightCount := matchedRightCount m + 1\<rparr>
                 in if joinType m = LeftAntiJoin \<or> joinType m = ExceptAllJoin then (m, Proceed)
                    else
                      (let m = (if emitUnmatchedRight m
                                then m\<lparr>matchedRight := insert ridx (matchedRight m)\<rparr> else m);
                           m = (if joinType m = LeftSemiJoin \<or> joinType m = IntersectAllJoin
                                then m\<lparr>rightIdx := len (rightRows m)\<rparr> else m)
                       in (m, Return (Some renderedRow) None))))
      else (m, Proceed))"
  by pat_completeness auto
termination
  by (relation "measure (\<lambda>(m, lrow). len (rightRows m) - rightIdx m)") auto

text \<open>
  One turn of the loop over the left rows (the body of \<open>for m.leftIdx < len(m.leftRows)\<close>):
  the scan of the right rows, the cancellation check, the move of both cursors, and the
  unmatched left row.
\<close>

definition leftIteration ::
  "('r, 'e) mergeJoiner \<Rightarrow> ('r, 'e) mergeJoiner \<times> ('r, 'e) exit" where
  "leftIteration m =
     (let lrow = at (leftRows m) (leftIdx m)
      in case rightLoop m lrow of
           (m, Return row meta) \<Rightarrow> (m, Return row meta)
         | (m, Proceed) \<Rightarrow>
             (case Check m of
                (m, Some err) \<Rightarrow> (m, Return None (Some (ProducerMetadata (Some err) [])))
              | (m, None) \<Rightarrow>
                  (let m = m\<lparr>leftIdx := leftIdx m + 1\<rparr>;
                       m = m\<lparr>rightIdx := 0\<rparr>;
                       m = (if IsSetOpJoin (joinType m) then m\<lparr>rightIdx := leftIdx m\<rparr> else m)
                   in if matchedRightCount m = 0 \<and> shouldEmitUnmatchedRow leftSide (joinType m)
                      then (m, Return (Some (renderUnmatchedRow m lrow leftSide)) None)
                      else (m\<lparr>matchedRightCount := 0\<rparr>, Proceed))))"

declare rightLoop.simps [simp del]

lemma rightLoop_frame:
  "rightLoop m lrow = (m', x) \<Longrightarrow>
     leftRows m' = leftRows m \<and> leftIdx m' = leftIdx m \<and> rightRows m' = rightRows m \<and>
     streamMerger m' = streamMerger m \<and> base m' = base m \<and> joinType m' = joinType m \<and>
     render m' = render m \<and> renderUnmatchedRow m' = renderUnmatchedRow m \<and>
     cancelChecker m' = cancelChecker m \<and> rightIdx m \<le> rightIdx m' \<and>
     rightIdx m' \<le> max (rightIdx m) (len (rightRows m))"
proof (induction m lrow arbitrary: m' x rule: rightLoop.induct)
  case (1 m lrow)
  show ?case
  proof (cases "rightIdx m < len (rightRows m)")
    case False
    with "1.prems" show ?thesis by (simp add: rightLoop.simps)
  next
    case True
    let ?m1 = "m\<lparr>rightIdx := rightIdx m + 1\<rparr>"
    show ?thesis
    proof (cases "render m lrow (at (rightRows m) (rightIdx m))")
      case (Inl err)
      with True "1.prems" show ?thesis by (auto simp: rightLoop.simps [of m])
    next
      case (Inr r)
      show ?thesis
      proof (cases r)
        case None
        with Inr True "1.prems" have "rightLoop ?m1 lrow = (m', x)"
          by (simp add: rightLoop.simps [of m])
        from "1.IH" [OF True refl refl _ _ this] Inr None True show ?thesis
          by (auto simp: max_def split: if_splits)
      next
        case (Some renderedRow)
        with Inr True "1.prems" show ?thesis
          by (auto simp: rightLoop.simps [of m] Let_def split: if_splits)
      qed
    qed
  qed
qed

lemma Check_frame:
  "Check m = (m', c) \<Longrightarrow>
     leftRows m' = leftRows m \<and> leftIdx m' = leftIdx m \<and> rightRows m' = rightRows m \<and>
     rightIdx m' = rightIdx m \<and> streamMerger m' = streamMerger m \<and> base m' = base m \<and>
     joinType m' = joinType m \<and> render m' = render m \<and>
     renderUnmatchedRow m' = renderUnmatchedRow m \<and>
     matchedRightCount m' = matchedRightCount m \<and> matchedRight m' = matchedRight m \<and>
     emitUnmatchedRight m' = emitUnmatchedRight m"
  by (auto simp: Check_def split: list.splits)

lemma leftIteration_frame:
  "leftIteration m = (m', x) \<Longrightarrow>
     leftRows m' = leftRows m \<and> rightRows m' = rightRows m \<and>
     streamMerger m' = streamMerger m \<and> base m' = base m \<and> joinType m' = joinType m \<and>
     render m' = render m \<and> renderUnmatchedRow m' = renderUnmatchedRow m \<and>
     leftIdx m \<le> leftIdx m'"
  by (auto simp: leftIteration_def Let_def
      split: prod.splits exit.splits option.splits if_splits
      dest!: rightLoop_frame Check_frame)

lemma leftIteration_Proceed:
  "leftIteration m = (m', Proceed) \<Longrightarrow> leftIdx m' = leftIdx m + 1"
  by (auto simp: leftIteration_def Let_def
      split: prod.splits exit.splits option.splits if_splits
      dest!: rightLoop_frame Check_frame)

text \<open>The loop over the left rows of the batch.\<close>

function leftLoop ::
  "('r, 'e) mergeJoiner \<Rightarrow> ('r, 'e) mergeJoiner \<times> ('r, 'e) exit" where
  "leftLoop m =
     (if leftIdx m < len (leftRows m) then
        (case leftIteration m of
           (m, Return row meta) \<Rightarrow> (m, Return row meta)
         | (m, Proceed) \<Rightarrow> leftLoop m)
      else (m, Proceed))"
  by pat_completeness auto
termination
proof (relation "measure (\<lambda>m. len (leftRows m) - leftIdx m)")
  show "wf (measure (\<lambda>m :: ('r, 'e) mergeJoiner. len (leftRows m) - leftIdx m))" by simp
next
  fix m m' :: "('r, 'e) mergeJoiner" and x :: "('r, 'e) exit"
  assume "leftIdx m < len (leftRows m)" and "(m', x) = leftIteration m" and "x = Proceed"
  then show "(m', m) \<in> measure (\<lambda>m. len (leftRows m) - leftIdx m)"
    using leftIteration_frame [of m m' Proceed] leftIteration_Proceed [of m m'] by simp
qed

declare leftLoop.simps [simp del]

text \<open>
  The loop that emits the right rows no left row matched
  (\<open>for m.rightIdx < len(m.rightRows)\<close> under \<open>if m.emitUnmatchedRight\<close>).
\<close>

function unmatchedRightLoop ::
  "('r, 'e) mergeJoiner \<Rightarrow> ('r, 'e) mergeJoiner \<times> ('r, 'e) exit" where
  "unmatchedRightLoop m =
     (if rightIdx m < len (rightRows m) then
        (let ridx = rightIdx m;
             m = m\<lparr>rightIdx := rightIdx m + 1\<rparr>
         in if ridx \<in> matchedRight m then unmatchedRightLoop m
            else (m, Return (Some (renderUnmatchedRow m (at (rightRows m) ridx) rightSide)) None))
      else (m, Proceed))"
  by pat_completeness auto
termination
  by (relation "measure (\<lambda>m. len (rightRows m) - rightIdx m)") auto

declare unmatchedRightLoop.simps [simp del]

lemma leftLoop_frame:
  "leftLoop m = (m', x) \<Longrightarrow>
     leftRows m' = leftRows m \<and> rightRows m' = rightRows m \<and>
     streamMerger m' = streamMerger m \<and> base m' = base m \<and> joinType m' = joinType m \<and>
     render m' = render m \<and> renderUnmatchedRow m' = renderUnmatchedRow m \<and>
     leftIdx m \<le> leftIdx m'"
proof (induction m arbitrary: m' x rule: leftLoop.induct)
  case (1 m)
  show ?case
  proof (cases "leftIdx m < len (leftRows m)")
    case False
    with "1.prems" show ?thesis by (simp add: leftLoop.simps)
  next
    case True
    obtain m1 x1 where it: "leftIteration m = (m1, x1)" by (cases "leftIteration m")
    note fr = leftIteration_frame [OF it]
    show ?thesis
    proof (cases x1)
      case (Return row meta)
      with it True "1.prems" have "m' = m1" by (simp add: leftLoop.simps [of m])
      with fr show ?thesis by simp
    next
      case Proceed
      with it True "1.prems" have "leftLoop m1 = (m', x)" by (simp add: leftLoop.simps [of m])
      from "1.IH" [OF True it [symmetric] Proceed this] fr
        leftIteration_Proceed [OF it [unfolded Proceed]]
      show ?thesis by simp
    qed
  qed
qed

lemma unmatchedRightLoop_frame:
  "unmatchedRightLoop m = (m', x) \<Longrightarrow>
     leftRows m' = leftRows m \<and> leftIdx m' = leftIdx m \<and> rightRows m' = rightRows m \<and>
     streamMerger m' = streamMerger m \<and> base m' = base m \<and> joinType m' = joinType m \<and>
     render m' = render m \<and> renderUnmatchedRow m' = renderUnmatchedRow m \<and>
     cancelChecker m' = cancelChecker m \<and> matchedRight m' = matchedRight m \<and>
     matchedRightCount m' = matchedRightCount m \<and>
     emitUnmatchedRight m' = emitUnmatchedRight m \<and> rightIdx m \<le> rightIdx m'"
proof (induction m arbitrary: m' x rule: unmatchedRightLoop.induct)
  case (1 m)
  show ?case
  proof (cases "rightIdx m < len (rightRows m)")
    case False
    with "1.prems" show ?thesis by (simp add: unmatchedRightLoop.simps)
  next
    case True
    let ?m1 = "m\<lparr>rightIdx := rightIdx m + 1\<rparr>"
    show ?thesis
    proof (cases "rightIdx m \<in> matchedRight m")
      case False
      with True "1.prems" show ?thesis
        by (auto simp: unmatchedRightLoop.simps [of m] Let_def)
    next
      case in_set: True
      with True "1.prems" have "unmatchedRightLoop ?m1 = (m', x)"
        by (simp add: unmatchedRightLoop.simps [of m] Let_def)
      from "1.IH" [OF True refl refl _ this] in_set show ?thesis by simp
    qed
  qed
qed

text \<open>
  The block \<open>if m.emitUnmatchedRight { ... }\<close> of \<open>nextRow\<close>: the unmatched right rows,
  then the reset of the matched set.
\<close>

definition emitUnmatchedRightRows ::
  "('r, 'e) mergeJoiner \<Rightarrow> ('r, 'e) mergeJoiner \<times> ('r, 'e) exit" where
  "emitUnmatchedRightRows m =
     (if emitUnmatchedRight m then
        (case unmatchedRightLoop m of
           (m, Return row meta) \<Rightarrow> (m, Return row meta)
         | (m, Proceed) \<Rightarrow> (m\<lparr>matchedRight := {}, emitUnmatchedRight := False\<rparr>, Proceed))
      else (m, Proceed))"

lemma emitUnmatchedRightRows_frame:
  "emitUnmatchedRightRows m = (m', x) \<Longrightarrow>
     leftRows m' = leftRows m \<and> leftIdx m' = leftIdx m \<and> rightRows m' = rightRows m \<and>
     streamMerger m' = streamMerger m \<and> base m' = base m \<and> joinType m' = joinType m \<and>
     render m' = render m \<and> renderUnmatchedRow m' = renderUnmatchedRow m \<and>
     rightIdx m \<le> rightIdx m'"
  by (auto simp: emitUnmatchedRightRows_def split: if_splits prod.splits exit.splits
      dest!: unmatchedRightLoop_frame)

lemma NextBatch_cases:
  "NextBatch m = (m', b) \<Longrightarrow>
     (streamMerger m = [] \<and> m' = m \<and> b = (None, None, None)) \<or>
     (streamMerger m = b # streamMerger m' \<and> m' = m\<lparr>streamMerger := streamMerger m'\<rparr>)"
  by (auto simp: NextBatch_def split: list.splits)

text \<open>\<open>mergeJoiner.nextRow\<close>: the outer \<open>for\<close> loop, one turn for each batch.\<close>

function nextRow ::
  "('r, 'e) mergeJoiner \<Rightarrow> ('r, 'e) mergeJoiner \<times> 'r option \<times> 'e ProducerMetadata option" where
  "nextRow m =
     (case leftLoop m of
        (m, Return row meta) \<Rightarrow> (m, row, meta)
      | (m, Proceed) \<Rightarrow>
          (case emitUnmatchedRightRows m of
             (m, Return row meta) \<Rightarrow> (m, row, meta)
           | (m, Proceed) \<Rightarrow>
               (case NextBatch m of
                  (m, (l, r, meta)) \<Rightarrow>
                    (let m = m\<lparr>leftRows := l, rightRows := r\<rparr>
                     in if meta \<noteq> None then (m, None, meta)
                        else if leftRows m = None \<and> rightRows m = None then (m, None, None)
                        else nextRow
                               (m\<lparr>emitUnmatchedRight :=
                                     shouldEmitUnmatchedRow rightSide (joinType m),
                                   leftIdx := 0, rightIdx := 0\<rparr>)))))"
  by pat_completeness auto
termination
proof (relation "measure (\<lambda>m. length (streamMerger m))")
  show "wf (measure (\<lambda>m :: ('r, 'e) mergeJoiner. length (streamMerger m)))" by simp
next
  fix m m1 m2 m3 mb :: "('r, 'e) mergeJoiner" and x1 x2 :: "('r, 'e) exit"
    and b :: "('r, 'e) batch" and l r :: "'r rows" and lr meta
  assume a: "(m1, x1) = leftLoop m" "x1 = Proceed" "(m2, x2) = emitUnmatchedRightRows m1"
    "x2 = Proceed" "(m3, b) = NextBatch m2" "(l, lr) = b" "(r, meta) = lr"
    "mb = m3\<lparr>leftRows := l, rightRows := r\<rparr>" "\<not> meta \<noteq> None"
    "\<not> (leftRows mb = None \<and> rightRows mb = None)"
  from a(1) have s1: "streamMerger m1 = streamMerger m"
    using leftLoop_frame [of m m1 x1] by simp
  from a(3) have s2: "streamMerger m2 = streamMerger m1"
    using emitUnmatchedRightRows_frame [of m1 m2 x2] by simp
  from a(5) have "NextBatch m2 = (m3, b)" by simp
  from NextBatch_cases [OF this] a(6-10)
  have "length (streamMerger m3) < length (streamMerger m2)" by auto
  with s1 s2 a(8)
  show "(mb\<lparr>emitUnmatchedRight := shouldEmitUnmatchedRow rightSide (joinType mb),
             leftIdx := 0, rightIdx := 0\<rparr>, m) \<in> measure (\<lambda>m. length (streamMerger m))"
    by simp
qed

declare nextRow.simps [simp del]

text \<open>
  Every row that \<open>nextRow\<close> returns costs progress: a batch of the merger, a left row of
  the batch or a right row of the batch, in this order of weight.
\<close>

definition mjRank :: "('r, 'e) mergeJoiner \<Rightarrow> nat \<times> nat \<times> nat" where
  "mjRank m = (length (streamMerger m), len (leftRows m) - leftIdx m,
               len (rightRows m) - rightIdx m)"

definition mjOrder :: "(('r, 'e) mergeJoiner \<times> ('r, 'e) mergeJoiner) set" where
  "mjOrder = inv_image (less_than <*lex*> less_than <*lex*> less_than) mjRank"

lemma wf_mjOrder: "wf mjOrder"
  unfolding mjOrder_def by (intro wf_inv_image wf_lex_prod wf_less_than)

lemma mjOrder_iff:
  "(m', m) \<in> mjOrder \<longleftrightarrow>
     length (streamMerger m') < length (streamMerger m) \<or>
     length (streamMerger m') = length (streamMerger m) \<and>
       (len (leftRows m') - leftIdx m' < len (leftRows m) - leftIdx m \<or>
        len (leftRows m') - leftIdx m' = len (leftRows m) - leftIdx m \<and>
          len (rightRows m') - rightIdx m' < len (rightRows m) - rightIdx m)"
  by (auto simp: mjOrder_def mjRank_def)

lemma rightLoop_Return_row:
  "rightLoop m lrow = (m', Return (Some row) md) \<Longrightarrow>
     rightIdx m < rightIdx m' \<and> rightIdx m < len (rightRows m)"
proof (induction m lrow arbitrary: m' rule: rightLoop.induct)
  case (1 m lrow)
  from "1.prems" have lt: "rightIdx m < len (rightRows m)"
    by (auto simp: rightLoop.simps [of m] split: if_splits)
  let ?m1 = "m\<lparr>rightIdx := rightIdx m + 1\<rparr>"
  show ?case
  proof (cases "render m lrow (at (rightRows m) (rightIdx m))")
    case (Inl err)
    with lt "1.prems" show ?thesis by (auto simp: rightLoop.simps [of m])
  next
    case (Inr r)
    show ?thesis
    proof (cases r)
      case None
      with Inr lt "1.prems" have "rightLoop ?m1 lrow = (m', Return (Some row) md)"
        by (simp add: rightLoop.simps [of m])
      from "1.IH" [OF lt refl refl _ _ this] Inr None lt show ?thesis by auto
    next
      case (Some renderedRow)
      with Inr lt "1.prems" show ?thesis
        by (auto simp: rightLoop.simps [of m] Let_def split: if_splits)
    qed
  qed
qed

lemma leftIteration_Return_row:
  "leftIteration m = (m', Return (Some row) md) \<Longrightarrow>
     leftIdx m' = leftIdx m + 1 \<or>
     leftIdx m' = leftIdx m \<and> rightIdx m < rightIdx m' \<and> rightIdx m < len (rightRows m)"
  by (auto simp: leftIteration_def Let_def
      split: prod.splits exit.splits option.splits if_splits
      dest!: Check_frame dest: rightLoop_frame rightLoop_Return_row)

lemma leftLoop_progress:
  "leftLoop m = (m', x) \<Longrightarrow>
     (case x of Return (Some row) md \<Rightarrow> (m', m) \<in> mjOrder
      | Return None md \<Rightarrow> True
      | Proceed \<Rightarrow> m' = m \<or> (m', m) \<in> mjOrder)"
proof (induction m arbitrary: m' x rule: leftLoop.induct)
  case (1 m)
  show ?case
  proof (cases "leftIdx m < len (leftRows m)")
    case False
    with "1.prems" show ?thesis by (simp add: leftLoop.simps)
  next
    case True
    obtain m1 x1 where it: "leftIteration m = (m1, x1)" by (cases "leftIteration m")
    note fr = leftIteration_frame [OF it]
    show ?thesis
    proof (cases x1)
      case (Return row meta)
      with it True "1.prems" have eq: "m' = m1" "x = Return row meta"
        by (simp_all add: leftLoop.simps [of m])
      show ?thesis
      proof (cases row)
        case None
        with eq show ?thesis by simp
      next
        case (Some r)
        from leftIteration_Return_row [OF it [unfolded Return Some]] fr True
        have "(m1, m) \<in> mjOrder" by (auto simp: mjOrder_iff)
        with eq Some show ?thesis by simp
      qed
    next
      case Proceed
      with it True "1.prems" have rec: "leftLoop m1 = (m', x)"
        by (simp add: leftLoop.simps [of m])
      from leftIteration_Proceed [OF it [unfolded Proceed]] fr True
      have step: "(m1, m) \<in> mjOrder" by (auto simp: mjOrder_iff)
      have tr: "(m', m1) \<in> mjOrder \<Longrightarrow> (m', m) \<in> mjOrder"
        using step by (auto simp: mjOrder_iff)
      from "1.IH" [OF True it [symmetric] Proceed rec] step tr show ?thesis
        by (auto split: exit.splits option.splits)
    qed
  qed
qed

lemma unmatchedRightLoop_Return_row:
  "unmatchedRightLoop m = (m', Return row md) \<Longrightarrow>
     rightIdx m < rightIdx m' \<and> rightIdx m < len (rightRows m)"
proof (induction m arbitrary: m' rule: unmatchedRightLoop.induct)
  case (1 m)
  from "1.prems" have lt: "rightIdx m < len (rightRows m)"
    by (auto simp: unmatchedRightLoop.simps [of m] split: if_splits)
  let ?m1 = "m\<lparr>rightIdx := rightIdx m + 1\<rparr>"
  show ?case
  proof (cases "rightIdx m \<in> matchedRight m")
    case False
    with lt "1.prems" show ?thesis by (auto simp: unmatchedRightLoop.simps [of m] Let_def)
  next
    case True
    with lt "1.prems" have "unmatchedRightLoop ?m1 = (m', Return row md)"
      by (simp add: unmatchedRightLoop.simps [of m] Let_def)
    from "1.IH" [OF lt refl refl _ this] True show ?thesis by auto
  qed
qed

lemma emitUnmatchedRightRows_Return_row:
  "emitUnmatchedRightRows m = (m', Return row md) \<Longrightarrow>
     rightIdx m < rightIdx m' \<and> rightIdx m < len (rightRows m)"
  by (auto simp: emitUnmatchedRightRows_def split: if_splits prod.splits exit.splits
      dest: unmatchedRightLoop_Return_row)

lemma nextRow_progress:
  "nextRow m = (m', Some row, md) \<Longrightarrow> (m', m) \<in> mjOrder"
proof (induction m arbitrary: m' rule: nextRow.induct)
  case (1 m)
  obtain m1 x1 where ll: "leftLoop m = (m1, x1)" by (cases "leftLoop m")
  note f1 = leftLoop_frame [OF ll] and p1 = leftLoop_progress [OF ll]
  show ?case
  proof (cases x1)
    case (Return row1 meta1)
    with ll "1.prems" have "m' = m1" "row1 = Some row" by (simp_all add: nextRow.simps [of m])
    with p1 Return show ?thesis by simp
  next
    case Proceed
    then have le1: "m1 = m \<or> (m1, m) \<in> mjOrder" using p1 by simp
    obtain m2 x2 where eu: "emitUnmatchedRightRows m1 = (m2, x2)"
      by (cases "emitUnmatchedRightRows m1")
    note f2 = emitUnmatchedRightRows_frame [OF eu]
    show ?thesis
    proof (cases x2)
      case (Return row2 meta2)
      with ll Proceed eu "1.prems" have eq: "m' = m2" "row2 = Some row"
        by (simp_all add: nextRow.simps [of m])
      from emitUnmatchedRightRows_Return_row [OF eu [unfolded Return]] f2
      have "(m2, m1) \<in> mjOrder" by (auto simp: mjOrder_iff)
      with le1 eq show ?thesis by (auto simp: mjOrder_iff)
    next
      case P2: Proceed
      obtain m3 l r meta where nb: "NextBatch m2 = (m3, (l, r, meta))"
        by (cases "NextBatch m2") auto
      let ?mb = "m3\<lparr>leftRows := l, rightRows := r\<rparr>"
      let ?m4 = "?mb\<lparr>emitUnmatchedRight := shouldEmitUnmatchedRow rightSide (joinType ?mb),
                       leftIdx := 0, rightIdx := 0\<rparr>"
      from ll Proceed eu P2 nb "1.prems"
      have c: "meta = None" "\<not> (l = None \<and> r = None)" "nextRow ?m4 = (m', Some row, md)"
        by (auto simp: nextRow.simps [of m] Let_def split: if_splits)
      have ih: "(m', ?m4) \<in> mjOrder"
        by (rule "1.IH" [OF ll [symmetric] Proceed eu [symmetric] P2 nb [symmetric] refl refl refl _ _ c(3)])
           (use c in auto)
      from NextBatch_cases [OF nb] c(2)
      have "length (streamMerger m3) < length (streamMerger m2)" by auto
      with f1 f2 have "length (streamMerger ?m4) < length (streamMerger m)" by simp
      with ih show ?thesis by (auto simp: mjOrder_iff)
    qed
  qed
qed

text \<open>
  \<open>ProcessRowHelper\<close> (the post-processing of \<open>ProcessorBase\<close>: filter, projection,
  limit) is not among the sources, and the spec does not describe it. \<open>Next\<close> takes it as
  a parameter \<open>prh\<close>: any function from the row and the processor base to the row to emit
  (or nil) and the new processor base.
\<close>

type_synonym ('r, 'e) ProcessRowHelper =
  "'r \<Rightarrow> ('r, 'e) ProcessorBase \<Rightarrow> 'r option \<times> ('r, 'e) ProcessorBase"

text \<open>The last statement of \<open>mergeJoiner.Next\<close>: \<open>return nil, m.DrainHelper()\<close>.\<close>

definition mjDrain ::
  "('r, 'e) mergeJoiner \<Rightarrow> ('r, 'e) mergeJoiner \<times> 'r option \<times> 'e ProducerMetadata option" where
  "mjDrain m = (case DrainHelper (base m) of (pb, meta) \<Rightarrow> (m\<lparr>base := pb\<rparr>, None, meta))"

text \<open>\<open>mergeJoiner.Next\<close>.\<close>

function mergeJoiner_Next ::
  "('r, 'e) ProcessRowHelper \<Rightarrow> ('r, 'e) mergeJoiner \<Rightarrow>
     ('r, 'e) mergeJoiner \<times> 'r option \<times> 'e ProducerMetadata option" where
  "mergeJoiner_Next prh m =
     (if State (base m) = StateRunning then
        (case nextRow m of
           (m, row, meta) \<Rightarrow>
             (case meta of
                Some md \<Rightarrow>
                  (if Err md \<noteq> None then (m\<lparr>base := MoveToDraining None (base m)\<rparr>, None, meta)
                   else (m, None, meta))
              | None \<Rightarrow>
                  (case row of
                     None \<Rightarrow> mjDrain (m\<lparr>base := MoveToDraining None (base m)\<rparr>)
                   | Some r \<Rightarrow>
                       (case prh r (base m) of
                          (Some outRow, pb) \<Rightarrow> (m\<lparr>base := pb\<rparr>, Some outRow, None)
                        | (None, pb) \<Rightarrow> mergeJoiner_Next prh (m\<lparr>base := pb\<rparr>)))))
      else mjDrain m)"
  by pat_completeness auto
termination
proof (relation "inv_image mjOrder snd")
  show "wf (inv_image mjOrder (snd :: _ \<times> ('r, 'e) mergeJoiner \<Rightarrow> _))"
    by (intro wf_inv_image wf_mjOrder)
next
  fix prh :: "('r, 'e) ProcessRowHelper" and m m1 :: "('r, 'e) mergeJoiner"
    and rm row meta r out outRow pb
  assume "State (base m) = StateRunning" "(m1, rm) = nextRow m" "(row, meta) = rm"
    "meta = None" "row = Some r" "(outRow, pb) = prh r (base m1)" "outRow = None"
  then have "nextRow m = (m1, Some r, None)" by simp
  from nextRow_progress [OF this]
  show "((prh, m1\<lparr>base := pb\<rparr>), (prh, m)) \<in> inv_image mjOrder snd"
    by (simp add: mjOrder_iff)
qed

declare mergeJoiner_Next.simps [simp del]

section \<open>The project-set processor\<close>

text \<open>
  A \<open>tree.ValueGenerator\<close>, an interface whose implementations are not among the sources:
  the error of \<open>Start()\<close>, the results of the coming calls of \<open>Next()\<close> (an error, or the
  values of a new row; (false, nil) once the list is used up) and what \<open>Values()\<close>
  returns.
\<close>

datatype ('v, 'e) ValueGenerator =
  ValueGenerator (startErr: "'e option") (pending: "('e + 'v list) list") (Values: "'v list")

definition EmptyGenerator :: "('v, 'e) ValueGenerator" where
  "EmptyGenerator = ValueGenerator None [] []"

definition genNext ::
  "('v, 'e) ValueGenerator \<Rightarrow> ('v, 'e) ValueGenerator \<times> bool \<times> 'e option" where
  "genNext g =
     (case pending g of
        [] \<Rightarrow> (g, False, None)
      | Inl err # rest \<Rightarrow> (ValueGenerator (startErr g) rest (Values g), False, Some err)
      | Inr vs # rest \<Rightarrow> (ValueGenerator (startErr g) rest vs, True, None))"

text \<open>
  The state that \<open>projectSetProcessor\<close> keeps for each expression of \<open>spec.Exprs\<close>. The
  Go struct holds it in the slices \<open>exprHelpers\<close>, \<open>funcs\<close>, \<open>gens\<close> and \<open>done\<close>, all
  made with the length of \<open>spec.Exprs\<close> by \<open>newProjectSetProcessor\<close> and read at the same
  index \<open>i\<close> together with \<open>spec.NumColsPerGen[i]\<close>; the model keeps one record for each
  index.
  \<^item> \<open>eval\<close>: \<open>exprHelpers[i].eval\<close>, the scalar expression on the row buffer;
  \<^item> \<open>func\<close>: \<open>funcs[i]\<close>, nil or the set-returning function, as the result of its
    \<open>EvalArgsAndGetGenerator\<close> on an input row (an error, nil or a generator);
  \<^item> \<open>gen\<close>: \<open>gens[i]\<close>; \<open>done\<close>: \<open>done[i]\<close>; \<open>numCols\<close>: \<open>spec.NumColsPerGen[i]\<close>.
\<close>

record ('v, 'd, 'e) exprState =
  eval :: "'d list \<Rightarrow> 'e + 'v"
  func :: "('d list \<Rightarrow> 'e + ('v, 'e) ValueGenerator option) option"
  gen :: "('v, 'e) ValueGenerator option"
  "done" :: bool
  numCols :: nat

text \<open>
  The struct \<open>projectSetProcessor\<close>. A row is a list of encoded datums \<open>'d\<close>; \<open>'v\<close> is
  a \<open>tree.Datum\<close>, \<open>'t\<close> a column type.
  \<^item> \<open>input\<close>: what the input still has to deliver;
  \<^item> \<open>inputOutputTypes\<close>: \<open>ps.input.OutputTypes()\<close>;
    \<open>GeneratedColumns\<close>: \<open>ps.spec.GeneratedColumns\<close>;
  \<^item> \<open>DatumToEncDatum\<close>, \<open>DNull\<close>: of \<open>sqlbase\<close> and \<open>tree\<close>, not among the sources;
  \<^item> \<open>Ctx_Err\<close>: what \<open>ps.Ctx.Err()\<close> returns, nil as long as the context is not
    canceled;
  \<^item> \<open>emitCount\<close>: an \<open>int64\<close>.
\<close>

record ('v, 'd, 't, 'e) projectSetProcessor =
  psBase :: "('d list, 'e) ProcessorBase"
  input :: "('d list, 'e) RowSource"
  inputOutputTypes :: "'t list"
  GeneratedColumns :: "'t list"
  DatumToEncDatum :: "'t \<Rightarrow> 'v \<Rightarrow> 'd"
  DNull :: 'v
  Ctx_Err :: "'e option"
  exprs :: "('v, 'd, 'e) exprState list"
  inputRowReady :: bool
  rowBuffer :: "'d list"
  emitCount :: "64 word"

text \<open>
  \<open>ps.toEncDatum\<close>. Go panics when \<open>generatedColIdx\<close> is outside \<open>GeneratedColumns\<close>
  (\<open>None\<close>); \<open>colIdx\<close> is never below the number of input columns, where it starts.
\<close>

definition toEncDatum ::
  "('v, 'd, 't, 'e) projectSetProcessor \<Rightarrow> 'v \<Rightarrow> nat \<Rightarrow> 'd option" where
  "toEncDatum ps d colIdx =
     (let generatedColIdx = colIdx - length (inputOutputTypes ps)
      in if colIdx < length (inputOutputTypes ps) \<or>
            length (GeneratedColumns ps) \<le> generatedColIdx then None
         else Some (DatumToEncDatum ps (GeneratedColumns ps ! generatedColIdx) d))"

text \<open>
  The assignment \<open>ps.rowBuffer[colIdx] = ps.toEncDatum(value, colIdx)\<close>; \<open>None\<close> is the
  panic of an index out of range, of the buffer or of the generated columns.
\<close>

definition setCol ::
  "('v, 'd, 't, 'e) projectSetProcessor \<Rightarrow> 'd list \<Rightarrow> nat \<Rightarrow> 'v \<Rightarrow> 'd list option" where
  "setCol ps buf colIdx value =
     (case toEncDatum ps value colIdx of
        None \<Rightarrow> None
      | Some d \<Rightarrow> if colIdx < length buf then Some (buf[colIdx := d]) else None)"

text \<open>The loop \<open>for _, value := range gen.Values()\<close> of \<open>nextGeneratorValues\<close>.\<close>

fun setValues ::
  "('v, 'd, 't, 'e) projectSetProcessor \<Rightarrow> 'd list \<Rightarrow> nat \<Rightarrow> 'v list \<Rightarrow> ('d list \<times> nat) option" where
  "setValues ps buf colIdx [] = Some (buf, colIdx)"
| "setValues ps buf colIdx (value # vs) =
     (case setCol ps buf colIdx value of
        None \<Rightarrow> None
      | Some buf \<Rightarrow> setValues ps buf (colIdx + 1) vs)"

text \<open>The loop \<open>for j := 0; j < numCols; j++\<close> of \<open>nextGeneratorValues\<close>, which writes NULLs.\<close>

fun setNulls ::
  "('v, 'd, 't, 'e) projectSetProcessor \<Rightarrow> 'd list \<Rightarrow> nat \<Rightarrow> nat \<Rightarrow> ('d list \<times> nat) option" where
  "setNulls ps buf colIdx 0 = Some (buf, colIdx)"
| "setNulls ps buf colIdx (Suc n) =
     (case setCol ps buf colIdx (DNull ps) of
        None \<Rightarrow> None
      | Some buf \<Rightarrow> setNulls ps buf (colIdx + 1) n)"

text \<open>
  What a helper of \<open>Next\<close> comes back with: a panic of the Go runtime (an index out of
  range), or its return values.
\<close>

datatype 'a outcome = Panics | Returns 'a

text \<open>
  The loop \<open>for i := range ps.exprHelpers\<close> of \<open>nextInputRow\<close>, from index \<open>i\<close> on: the
  expressions from there on are \<open>xs\<close>. The result is their new state and the error
  returned, if any.
\<close>

fun initGenerators ::
  "'d list \<Rightarrow> ('v, 'd, 'e) exprState list \<Rightarrow> ('v, 'd, 'e) exprState list \<times> 'e option" where
  "initGenerators row [] = ([], None)"
| "initGenerators row (x # xs) =
     (case func x of
        Some fn \<Rightarrow>
          (case fn row of
             Inl err \<Rightarrow> (x # xs, Some err)
           | Inr g \<Rightarrow>
               (let g = (case g of None \<Rightarrow> EmptyGenerator | Some g \<Rightarrow> g)
                in case startErr g of
                     Some err \<Rightarrow> (x # xs, Some err)
                   | None \<Rightarrow>
                       (case initGenerators row xs of
                          (xs, err) \<Rightarrow> (x\<lparr>gen := Some g, done := False\<rparr> # xs, err))))
      | None \<Rightarrow>
          (case initGenerators row xs of (xs, err) \<Rightarrow> (x\<lparr>done := False\<rparr> # xs, err)))"

text \<open>\<open>ps.nextInputRow\<close>: the row, the metadata and the error it returns.\<close>

definition nextInputRow ::
  "('v, 'd, 't, 'e) projectSetProcessor \<Rightarrow>
     ('v, 'd, 't, 'e) projectSetProcessor \<times>
     'd list option \<times> 'e ProducerMetadata option \<times> 'e option" where
  "nextInputRow ps =
     (case input ps of
        [] \<Rightarrow> (ps, None, None, None)
      | Meta md # rest \<Rightarrow> (ps\<lparr>input := rest\<rparr>, None, Some md, None)
      | Row row # rest \<Rightarrow>
          (case initGenerators row (exprs ps) of
             (xs, Some err) \<Rightarrow> (ps\<lparr>input := rest, exprs := xs\<rparr>, None, None, Some err)
           | (xs, None) \<Rightarrow> (ps\<lparr>input := rest, exprs := xs\<rparr>, Some row, None, None)))"

text \<open>
  The loop \<open>for i := range ps.exprHelpers\<close> of \<open>nextGeneratorValues\<close>, from index \<open>i\<close>
  on, with the row buffer, \<open>colIdx\<close> and \<open>newValAvail\<close> as they stand. The result is the new
  state of the expressions, the buffer, and the return values (\<open>newValAvail\<close>, \<open>err\<close>).
\<close>

fun generatorValues ::
  "('v, 'd, 't, 'e) projectSetProcessor \<Rightarrow> ('v, 'd, 'e) exprState list \<Rightarrow> 'd list \<Rightarrow> nat \<Rightarrow>
     bool \<Rightarrow> ('v, 'd, 'e) exprState list \<times> 'd list \<times> (bool \<times> 'e option) outcome" where
  "generatorValues ps [] buf colIdx newValAvail = ([], buf, Returns (newValAvail, None))"
| "generatorValues ps (x # xs) buf colIdx newValAvail =
     (case gen x of
        Some g \<Rightarrow>
          (if \<not> done x then
             (case genNext g of
                (g, hasVals, Some err) \<Rightarrow> (x\<lparr>gen := Some g\<rparr> # xs, buf, Returns (False, Some err))
              | (g, hasVals, None) \<Rightarrow>
                  (if hasVals then
                     (case setValues ps buf colIdx (Values g) of
                        None \<Rightarrow> (x\<lparr>gen := Some g\<rparr> # xs, buf, Panics)
                      | Some (buf, colIdx) \<Rightarrow>
                          (case generatorValues ps xs buf colIdx True of
                             (xs, res) \<Rightarrow> (x\<lparr>gen := Some g\<rparr> # xs, res)))
                   else
                     (case setNulls ps buf colIdx (numCols x) of
                        None \<Rightarrow> (x\<lparr>gen := Some g, done := True\<rparr> # xs, buf, Panics)
                      | Some (buf, colIdx) \<Rightarrow>
                          (case generatorValues ps xs buf colIdx newValAvail of
                             (xs, res) \<Rightarrow> (x\<lparr>gen := Some g, done := True\<rparr> # xs, res)))))
           else
             (case generatorValues ps xs buf (colIdx + numCols x) newValAvail of
                (xs, res) \<Rightarrow> (x # xs, res)))
      | None \<Rightarrow>
          (if \<not> done x then
             (case eval x buf of
                Inl err \<Rightarrow> (x # xs, buf, Returns (False, Some err))
              | Inr value \<Rightarrow>
                  (case setCol ps buf colIdx value of
                     None \<Rightarrow> (x # xs, buf, Panics)
                   | Some buf \<Rightarrow>
                       (case generatorValues ps xs buf (colIdx + 1) True of
                          (xs, res) \<Rightarrow> (x\<lparr>done := True\<rparr> # xs, res))))
           else
             (case setCol ps buf colIdx (DNull ps) of
                None \<Rightarrow> (x # xs, buf, Panics)
              | Some buf \<Rightarrow>
                  (case generatorValues ps xs buf (colIdx + 1) newValAvail of
                     (xs, res) \<Rightarrow> (x # xs, res)))))"

text \<open>\<open>ps.nextGeneratorValues\<close>.\<close>

definition nextGeneratorValues ::
  "('v, 'd, 't, 'e) projectSetProcessor \<Rightarrow>
     ('v, 'd, 't, 'e) projectSetProcessor \<times> (bool \<times> 'e option) outcome" where
  "nextGeneratorValues ps =
     (let colIdx = length (inputOutputTypes ps)
      in case generatorValues ps (exprs ps) (rowBuffer ps) colIdx False of
           (xs, buf, res) \<Rightarrow> (ps\<lparr>exprs := xs, rowBuffer := buf\<rparr>, res))"

text \<open>\<open>copy(ps.rowBuffer, row)\<close>: Go copies as many elements as both slices have.\<close>

definition copyRow :: "'d list \<Rightarrow> 'd list \<Rightarrow> 'd list" where
  "copyRow dst src = take (length dst) src @ drop (length src) dst"

definition cancelCheckCount :: int where
  "cancelCheckCount = 10000"

text \<open>
  The statement \<open>return nil, ps.DrainHelper()\<close> of \<open>projectSetProcessor.Next\<close>, after
  \<open>ps.MoveToDraining(err)\<close> where the source has it.
\<close>

definition psDrain ::
  "('v, 'd, 't, 'e) projectSetProcessor \<Rightarrow>
     ('v, 'd, 't, 'e) projectSetProcessor \<times> 'd list option \<times> 'e ProducerMetadata option" where
  "psDrain ps = (case DrainHelper (psBase ps) of (pb, meta) \<Rightarrow> (ps\<lparr>psBase := pb\<rparr>, None, meta))"

text \<open>
  How one turn of the loop of \<open>Next\<close> ends: with a \<open>return\<close> (or a panic inside a
  helper), or with the next turn.
\<close>

datatype 'a step = Stop 'a | Again

type_synonym ('d, 'e) psResult = "('d list option \<times> 'e ProducerMetadata option) outcome"

text \<open>The block \<open>if !ps.inputRowReady { ... }\<close> of \<open>projectSetProcessor.Next\<close>.\<close>

definition readInputRow ::
  "('v, 'd, 't, 'e) projectSetProcessor \<Rightarrow>
     ('v, 'd, 't, 'e) projectSetProcessor \<times> ('d, 'e) psResult step" where
  "readInputRow ps =
     (if \<not> inputRowReady ps then
        (case nextInputRow ps of
           (ps, row, meta, err) \<Rightarrow>
             (case meta of
                Some md \<Rightarrow>
                  (if Err md \<noteq> None
                   then (ps\<lparr>psBase := MoveToDraining None (psBase ps)\<rparr>,
                         Stop (Returns (None, meta)))
                   else (ps, Stop (Returns (None, meta))))
              | None \<Rightarrow>
                  (case err of
                     Some e \<Rightarrow>
                       (case psDrain (ps\<lparr>psBase := MoveToDraining err (psBase ps)\<rparr>) of
                          (ps, res) \<Rightarrow> (ps, Stop (Returns res)))
                   | None \<Rightarrow>
                       (case row of
                          None \<Rightarrow>
                            (case psDrain (ps\<lparr>psBase := MoveToDraining None (psBase ps)\<rparr>) of
                               (ps, res) \<Rightarrow> (ps, Stop (Returns res)))
                        | Some r \<Rightarrow>
                            (ps\<lparr>rowBuffer := copyRow (rowBuffer ps) r,
                                inputRowReady := True\<rparr>, Again)))))
      else (ps, Again))"

text \<open>
  One turn of the loop \<open>for ps.State == StateRunning\<close> of \<open>projectSetProcessor.Next\<close>.
  \<open>prh\<close> is \<open>ProcessRowHelper\<close>, as for the merge joiner.
\<close>

definition psIteration ::
  "('d list, 'e) ProcessRowHelper \<Rightarrow> ('v, 'd, 't, 'e) projectSetProcessor \<Rightarrow>
     ('v, 'd, 't, 'e) projectSetProcessor \<times> ('d, 'e) psResult step" where
  "psIteration prh ps =
     (let ps = ps\<lparr>emitCount := emitCount ps + 1\<rparr>
      in if sint (emitCount ps) smod cancelCheckCount = 0 \<and> Ctx_Err ps \<noteq> None then
           (case psDrain (ps\<lparr>psBase := MoveToDraining (Ctx_Err ps) (psBase ps)\<rparr>) of
              (ps, res) \<Rightarrow> (ps, Stop (Returns res)))
         else
           (case readInputRow ps of
              (ps, Stop res) \<Rightarrow> (ps, Stop res)
            | (ps, Again) \<Rightarrow>
                (case nextGeneratorValues ps of
                   (ps, Panics) \<Rightarrow> (ps, Stop Panics)
                 | (ps, Returns (newValAvail, Some err)) \<Rightarrow>
                     (case psDrain (ps\<lparr>psBase := MoveToDraining (Some err) (psBase ps)\<rparr>) of
                        (ps, res) \<Rightarrow> (ps, Stop (Returns res)))
                 | (ps, Returns (newValAvail, None)) \<Rightarrow>
                     (if newValAvail then
                        (case prh (rowBuffer ps) (psBase ps) of
                           (Some outRow, pb) \<Rightarrow>
                             (ps\<lparr>psBase := pb\<rparr>, Stop (Returns (Some outRow, None)))
                         | (None, pb) \<Rightarrow> (ps\<lparr>psBase := pb\<rparr>, Again))
                      else (ps\<lparr>inputRowReady := False\<rparr>, Again)))))"

text \<open>
  Every turn of the loop that ends with the next turn costs progress: an item of the
  input, or (with an input row at hand) a pending value of a generator or an expression
  that was not done.
\<close>

definition exprWeight :: "('v, 'd, 'e) exprState \<Rightarrow> nat" where
  "exprWeight x =
     (if done x then 0 else 1 + (case gen x of None \<Rightarrow> 0 | Some g \<Rightarrow> length (pending g)))"

definition psWeight :: "('v, 'd, 'e) exprState list \<Rightarrow> nat" where
  "psWeight xs = sum_list (map exprWeight xs)"

definition psRank :: "('v, 'd, 't, 'e) projectSetProcessor \<Rightarrow> nat \<times> nat" where
  "psRank ps = (length (input ps), if inputRowReady ps then 1 + psWeight (exprs ps) else 0)"

definition psOrder ::
  "(('v, 'd, 't, 'e) projectSetProcessor \<times> ('v, 'd, 't, 'e) projectSetProcessor) set" where
  "psOrder = inv_image (less_than <*lex*> less_than) psRank"

lemma wf_psOrder: "wf psOrder"
  unfolding psOrder_def by (intro wf_inv_image wf_lex_prod wf_less_than)

lemma genNext_weight:
  "genNext g = (g', hasVals, err) \<Longrightarrow>
     length (pending g') \<le> length (pending g) \<and>
     (hasVals \<longrightarrow> length (pending g') < length (pending g))"
  by (auto simp: genNext_def split: list.splits sum.splits)

lemma generatorValues_weight:
  "generatorValues ps xs buf colIdx nva = (xs', buf', res) \<Longrightarrow>
     psWeight xs' \<le> psWeight xs \<and>
     (res = Returns (True, None) \<longrightarrow> nva \<or> psWeight xs' < psWeight xs)"
proof (induction xs arbitrary: buf colIdx nva xs' buf' res)
  case Nil
  then show ?case by (auto simp: psWeight_def)
next
  case (Cons x xs)
  from Cons.prems show ?case
    by (auto simp: psWeight_def exprWeight_def
        split: option.splits if_splits prod.splits sum.splits
        dest!: Cons.IH genNext_weight)
qed


lemma psOrder_iff:
  "(ps', ps) \<in> psOrder \<longleftrightarrow>
     length (input ps') < length (input ps) \<or>
     length (input ps') = length (input ps) \<and>
       (if inputRowReady ps' then 1 + psWeight (exprs ps') else 0) <
       (if inputRowReady ps then 1 + psWeight (exprs ps) else 0)"
  by (auto simp: psOrder_def psRank_def)

lemma nextInputRow_row:
  "nextInputRow ps = (ps', Some row, meta, err) \<Longrightarrow>
     length (input ps') < length (input ps) \<and> inputRowReady ps' = inputRowReady ps"
  by (auto simp: nextInputRow_def split: list.splits item.splits prod.splits option.splits)

lemma readInputRow_Again:
  "readInputRow ps = (ps', Again) \<Longrightarrow>
     inputRowReady ps' \<and>
     (if inputRowReady ps then ps' = ps else length (input ps') < length (input ps))"
  by (auto simp: readInputRow_def split: if_splits prod.splits option.splits
      dest!: nextInputRow_row)

lemma nextGeneratorValues_weight:
  "nextGeneratorValues ps = (ps', res) \<Longrightarrow>
     input ps' = input ps \<and> inputRowReady ps' = inputRowReady ps \<and>
     psWeight (exprs ps') \<le> psWeight (exprs ps) \<and>
     (res = Returns (True, None) \<longrightarrow> psWeight (exprs ps') < psWeight (exprs ps))"
  by (auto simp: nextGeneratorValues_def Let_def split: prod.splits
      dest!: generatorValues_weight)

lemma psIteration_Again:
  assumes "psIteration prh ps = (ps', Again)"
  shows "(ps', ps) \<in> psOrder"
proof -
  let ?p0 = "ps\<lparr>emitCount := emitCount ps + 1\<rparr>"
  obtain p1 s1 where r: "readInputRow ?p0 = (p1, s1)" by (cases "readInputRow ?p0")
  obtain p2 res where g: "nextGeneratorValues p1 = (p2, res)"
    by (cases "nextGeneratorValues p1")
  from assms r have s1: "s1 = Again"
    by (auto simp: psIteration_def Let_def split: if_splits prod.splits step.splits)
  note ra = readInputRow_Again [OF r [unfolded s1]]
  note gw = nextGeneratorValues_weight [OF g]
  from ra have le1: "length (input p1) \<le> length (input ps)"
    by (auto split: if_splits)
  from assms r s1 g
  consider (filtered) pb where "res = Returns (True, None)" "ps' = p2\<lparr>psBase := pb\<rparr>"
    | (exhausted) nva where "res = Returns (nva, None)" "ps' = p2\<lparr>inputRowReady := False\<rparr>"
    by (auto simp: psIteration_def Let_def
        split: if_splits prod.splits step.splits outcome.splits option.splits)
  then show ?thesis
  proof cases
    case filtered
    with ra gw show ?thesis
      by (cases "inputRowReady ps") (auto simp: psOrder_iff)
  next
    case exhausted
    with ra gw show ?thesis
      by (cases "inputRowReady ps") (auto simp: psOrder_iff)
  qed
qed

text \<open>\<open>projectSetProcessor.Next\<close>.\<close>

function projectSetProcessor_Next ::
  "('d list, 'e) ProcessRowHelper \<Rightarrow> ('v, 'd, 't, 'e) projectSetProcessor \<Rightarrow>
     ('v, 'd, 't, 'e) projectSetProcessor \<times> ('d, 'e) psResult" where
  "projectSetProcessor_Next prh ps =
     (if State (psBase ps) = StateRunning then
        (case psIteration prh ps of
           (ps, Stop res) \<Rightarrow> (ps, res)
         | (ps, Again) \<Rightarrow> projectSetProcessor_Next prh ps)
      else (case psDrain ps of (ps, res) \<Rightarrow> (ps, Returns res)))"
  by pat_completeness auto
termination
  apply (relation "inv_image psOrder snd")
   apply (intro wf_inv_image wf_psOrder)
  subgoal for prh ps ps' st
    using psIteration_Again [of prh ps ps'] by simp
  done

declare projectSetProcessor_Next.simps [simp del]

section \<open>Examples\<close>

text \<open>
  The merge joiner as \<open>newMergeJoiner\<close> and \<open>Start\<close> leave it: running, no batch
  fetched yet, all cursors and counters zero. The two inputs to drain are taken as
  already exhausted.
\<close>

definition newMergeJoiner ::
  "JoinType \<Rightarrow> ('r \<Rightarrow> 'r \<Rightarrow> 'e + 'r option) \<Rightarrow> ('r \<Rightarrow> joinSide \<Rightarrow> 'r) \<Rightarrow>
     ('r, 'e) batch list \<Rightarrow> ('r, 'e) mergeJoiner" where
  "newMergeJoiner jt rnd unm batches =
     \<lparr>base = \<lparr>State = StateRunning, inputsToDrain = [[], []], trailingMeta = [],
               trailingMetaCallback = []\<rparr>,
      joinType = jt, render = rnd, renderUnmatchedRow = unm, cancelChecker = [],
      leftRows = None, rightRows = None, leftIdx = 0, rightIdx = 0,
      emitUnmatchedRight = False, matchedRight = {}, matchedRightCount = 0,
      streamMerger = batches\<rparr>"

text \<open>Collaborators for the examples: a row is a list of numbers, NULL is 0.\<close>

definition renderAll :: "nat list \<Rightarrow> nat list \<Rightarrow> string + nat list option" where
  "renderAll l r = Inr (Some (l @ r))"

definition padNull :: "nat list \<Rightarrow> joinSide \<Rightarrow> nat list" where
  "padNull row side = (case side of leftSide \<Rightarrow> row @ [0] | rightSide \<Rightarrow> 0 # row)"

definition passRow :: "('r, 'e) ProcessRowHelper" where
  "passRow row pb = (Some row, pb)"

text \<open>
  The project-set processor as \<open>newProjectSetProcessor\<close> and \<open>Start\<close> leave it, when
  every expression helper initialises: running, no input row at hand, \<open>emitCount\<close> zero.
  The input to drain is taken as already exhausted. In the examples a datum is a number,
  encoded as itself, and NULL is 0.
\<close>

definition newProjectSetProcessor ::
  "nat \<Rightarrow> nat \<Rightarrow> (nat, nat, string) exprState list \<Rightarrow> (nat list, string) RowSource \<Rightarrow>
     string option \<Rightarrow> (nat, nat, unit, string) projectSetProcessor" where
  "newProjectSetProcessor nIn nGen xs inp ctxErr =
     \<lparr>psBase = \<lparr>State = StateRunning, inputsToDrain = [[]], trailingMeta = [],
                 trailingMetaCallback = []\<rparr>,
      input = inp, inputOutputTypes = replicate nIn (), GeneratedColumns = replicate nGen (),
      DatumToEncDatum = (\<lambda>t v. v), DNull = 0, Ctx_Err = ctxErr, exprs = xs,
      inputRowReady = False, rowBuffer = replicate (nIn + nGen) 0, emitCount = 0\<rparr>"

lemmas mj_eval =
  mergeJoiner_Next.simps nextRow.simps leftLoop.simps rightLoop.simps
  unmatchedRightLoop.simps leftIteration_def emitUnmatchedRightRows_def NextBatch_def
  Check_def MoveToDraining_def mjDrain_def DrainHelper_def newMergeJoiner_def
  IsSetOpJoin_def shouldEmitUnmatchedRow_def renderAll_def padNull_def passRow_def Let_def

lemmas ps_eval =
  projectSetProcessor_Next.simps psIteration_def readInputRow_def nextInputRow_def
  nextGeneratorValues_def psDrain_def MoveToDraining_def DrainHelper_def
  newProjectSetProcessor_def cancelCheckCount_def genNext_def EmptyGenerator_def
  setCol_def toEncDatum_def copyRow_def passRow_def Let_def

section \<open>The processor state machine\<close>

lemma DrainHelper_Exhausted:
  "State pb = StateExhausted \<Longrightarrow> DrainHelper pb = (pb, None)"
  by (simp add: DrainHelper_def)

lemma DrainHelper_Some:
  "DrainHelper pb = (pb', Some md) \<Longrightarrow> State pb = StateDraining \<and> State pb' = StateDraining"
  by (auto simp: DrainHelper_def split: procState.splits list.splits prod.splits option.splits)

lemma DrainHelper_None:
  "DrainHelper pb = (pb', None) \<Longrightarrow> State pb \<noteq> StateRunning \<Longrightarrow> State pb' = StateExhausted"
  by (auto simp: DrainHelper_def split: procState.splits list.splits prod.splits option.splits)

lemma DrainHelper_not_Running:
  "State pb \<noteq> StateRunning \<Longrightarrow> State (fst (DrainHelper pb)) \<noteq> StateRunning"
  by (auto simp: DrainHelper_def split: procState.splits list.splits prod.splits option.splits)

lemma MoveToDraining_State:
  "State (MoveToDraining err pb) =
     (if State pb = StateRunning then StateDraining else State pb)"
  by (simp add: MoveToDraining_def)

text \<open>The processor after \<open>n\<close> further calls of \<open>Next\<close>.\<close>

definition mjAfter ::
  "('r, 'e) ProcessRowHelper \<Rightarrow> nat \<Rightarrow> ('r, 'e) mergeJoiner \<Rightarrow> ('r, 'e) mergeJoiner" where
  "mjAfter prh n m = ((\<lambda>m. fst (mergeJoiner_Next prh m)) ^^ n) m"

definition psAfter ::
  "('d list, 'e) ProcessRowHelper \<Rightarrow> nat \<Rightarrow> ('v, 'd, 't, 'e) projectSetProcessor \<Rightarrow>
     ('v, 'd, 't, 'e) projectSetProcessor" where
  "psAfter prh n ps = ((\<lambda>ps. fst (projectSetProcessor_Next prh ps)) ^^ n) ps"

lemma mergeJoiner_Next_not_Running:
  "State (base m) \<noteq> StateRunning \<Longrightarrow> mergeJoiner_Next prh m = mjDrain m"
  by (simp add: mergeJoiner_Next.simps)

lemma projectSetProcessor_Next_not_Running:
  "State (psBase ps) \<noteq> StateRunning \<Longrightarrow>
     projectSetProcessor_Next prh ps = (case psDrain ps of (ps, res) \<Rightarrow> (ps, Returns res))"
  by (simp add: projectSetProcessor_Next.simps)

lemma mjDrain_Exhausted:
  "State (base m) = StateExhausted \<Longrightarrow> mjDrain m = (m, None, None)"
  by (simp add: mjDrain_def DrainHelper_Exhausted)

lemma psDrain_Exhausted:
  "State (psBase ps) = StateExhausted \<Longrightarrow> psDrain ps = (ps, None, None)"
  by (simp add: psDrain_def DrainHelper_Exhausted)

lemma mjAfter_Exhausted:
  "State (base m) = StateExhausted \<Longrightarrow> mjAfter prh n m = m"
  by (induction n) (simp_all add: mjAfter_def mergeJoiner_Next_not_Running mjDrain_Exhausted)

lemma psAfter_Exhausted:
  "State (psBase ps) = StateExhausted \<Longrightarrow> psAfter prh n ps = ps"
  by (induction n)
     (simp_all add: psAfter_def projectSetProcessor_Next_not_Running psDrain_Exhausted)

text \<open>
  C8. For every processor (merge joiner, project-set) that has reached the Exhausted
  state, every subsequent call to \<open>Next()\<close> returns (nil, nil) and leaves the processor as
  it is, for any number \<open>n\<close> of calls made before it.
\<close>

theorem Exhausted_Next_nil:
  "(State (base m) = StateExhausted \<longrightarrow>
      (\<forall>n. mergeJoiner_Next prh (mjAfter prh n m) = (m, None, None))) \<and>
   (State (psBase ps) = StateExhausted \<longrightarrow>
      (\<forall>n. projectSetProcessor_Next prh' (psAfter prh' n ps) = (ps, Returns (None, None))))"
  by (simp add: mjAfter_Exhausted psAfter_Exhausted mergeJoiner_Next_not_Running
      projectSetProcessor_Next_not_Running mjDrain_Exhausted psDrain_Exhausted)


theorem Exhausted_Next_nil_witness:
  "State (base (fst (mergeJoiner_Next passRow (newMergeJoiner InnerJoin renderAll padNull []))))
     = StateExhausted \<and>
   (\<forall>n. mergeJoiner_Next passRow
          (mjAfter passRow n
             (fst (mergeJoiner_Next passRow (newMergeJoiner InnerJoin renderAll padNull [])))) =
        (fst (mergeJoiner_Next passRow (newMergeJoiner InnerJoin renderAll padNull [])),
         None, None)) \<and>
   State (psBase (fst (projectSetProcessor_Next passRow (newProjectSetProcessor 1 0 [] [] None))))
     = StateExhausted \<and>
   (\<forall>n. projectSetProcessor_Next passRow
          (psAfter passRow n
             (fst (projectSetProcessor_Next passRow (newProjectSetProcessor 1 0 [] [] None)))) =
        (fst (projectSetProcessor_Next passRow (newProjectSetProcessor 1 0 [] [] None)),
         Returns (None, None)))"
proof -
  let ?m = "fst (mergeJoiner_Next passRow (newMergeJoiner InnerJoin renderAll padNull []))"
  let ?ps = "fst (projectSetProcessor_Next passRow (newProjectSetProcessor 1 0 [] [] None))"
  have m: "State (base ?m) = StateExhausted"
    by (simp add: mj_eval)
  have ps: "State (psBase ?ps) = StateExhausted"
    by (simp add: ps_eval)
  from m ps Exhausted_Next_nil [of ?m passRow ?ps passRow] show ?thesis
    by blast
qed

lemma nextRow_frame:
  "nextRow m = (m', x) \<Longrightarrow>
     base m' = base m \<and> joinType m' = joinType m \<and> render m' = render m \<and>
     renderUnmatchedRow m' = renderUnmatchedRow m"
proof (induction m arbitrary: m' x rule: nextRow.induct)
  case (1 m)
  obtain m1 x1 where ll: "leftLoop m = (m1, x1)" by (cases "leftLoop m")
  note f1 = leftLoop_frame [OF ll]
  show ?case
  proof (cases x1)
    case (Return row1 meta1)
    with ll "1.prems" f1 show ?thesis by (auto simp: nextRow.simps [of m])
  next
    case Proceed
    obtain m2 x2 where eu: "emitUnmatchedRightRows m1 = (m2, x2)"
      by (cases "emitUnmatchedRightRows m1")
    note f2 = emitUnmatchedRightRows_frame [OF eu]
    show ?thesis
    proof (cases x2)
      case (Return row2 meta2)
      with ll Proceed eu "1.prems" f1 f2 show ?thesis by (auto simp: nextRow.simps [of m])
    next
      case P2: Proceed
      obtain m3 l r meta where nb: "NextBatch m2 = (m3, (l, r, meta))"
        by (cases "NextBatch m2") auto
      let ?mb = "m3\<lparr>leftRows := l, rightRows := r\<rparr>"
      let ?m4 = "?mb\<lparr>emitUnmatchedRight := shouldEmitUnmatchedRow rightSide (joinType ?mb),
                       leftIdx := 0, rightIdx := 0\<rparr>"
      from nb
      have f3: "base m3 = base m2 \<and> joinType m3 = joinType m2 \<and> render m3 = render m2 \<and>
        renderUnmatchedRow m3 = renderUnmatchedRow m2"
        by (auto simp: NextBatch_def split: list.splits)
      show ?thesis
      proof (cases "meta \<noteq> None \<or> (l = None \<and> r = None)")
        case True
        with ll Proceed eu P2 nb "1.prems" have "m' = ?mb"
          by (auto simp: nextRow.simps [of m] Let_def split: if_splits)
        with f1 f2 f3 show ?thesis by simp
      next
        case False
        with ll Proceed eu P2 nb "1.prems" have rec: "nextRow ?m4 = (m', x)"
          by (auto simp: nextRow.simps [of m] Let_def split: if_splits)
        have "base m' = base ?m4 \<and> joinType m' = joinType ?m4 \<and> render m' = render ?m4 \<and>
          renderUnmatchedRow m' = renderUnmatchedRow ?m4"
          by (rule "1.IH" [OF ll [symmetric] Proceed eu [symmetric] P2 nb [symmetric]
                refl refl refl _ _ rec]) (use False in auto)
        with f1 f2 f3 show ?thesis by simp
      qed
    qed
  qed
qed

lemma mjDrain_Some:
  "mjDrain m = (m', row, Some md) \<Longrightarrow> State (base m') = StateDraining"
  by (auto simp: mjDrain_def split: prod.splits dest: DrainHelper_Some)

lemma mergeJoiner_Next_Err:
  "mergeJoiner_Next prh m = (m', row, Some md) \<Longrightarrow> Err md \<noteq> None \<Longrightarrow>
     State (base m') = StateDraining"
proof (induction prh m arbitrary: m' row rule: mergeJoiner_Next.induct)
  case (1 prh m)
  show ?case
  proof (cases "State (base m) = StateRunning")
    case False
    with "1.prems" show ?thesis
      by (auto simp: mergeJoiner_Next.simps [of prh m] dest: mjDrain_Some)
  next
    case True
    obtain m1 row1 meta1 where nr: "nextRow m = (m1, row1, meta1)"
      by (cases "nextRow m") auto
    from nextRow_frame [OF nr] True have b1: "State (base m1) = StateRunning" by simp
    show ?thesis
    proof (cases meta1)
      case (Some md1)
      with True nr "1.prems" b1 show ?thesis
        by (auto simp: mergeJoiner_Next.simps [of prh m] MoveToDraining_State split: if_splits)
    next
      case None
      show ?thesis
      proof (cases row1)
        case N: None
        with None True nr "1.prems" show ?thesis
          by (auto simp: mergeJoiner_Next.simps [of prh m] dest: mjDrain_Some)
      next
        case (Some r)
        obtain out pb where p: "prh r (base m1) = (out, pb)" by (cases "prh r (base m1)")
        show ?thesis
        proof (cases out)
          case O: None
          with Some None True nr p "1.prems"
          have "mergeJoiner_Next prh (m1\<lparr>base := pb\<rparr>) = (m', row, Some md)"
            by (simp add: mergeJoiner_Next.simps [of prh m])
          from "1.IH" [OF True nr [symmetric] refl None Some p [symmetric] O this "1.prems"(2)]
          show ?thesis .
        next
          case (Some outRow)
          with \<open>row1 = Some r\<close> None True nr p "1.prems" show ?thesis
            by (simp add: mergeJoiner_Next.simps [of prh m])
        qed
      qed
    qed
  qed
qed

lemma mergeJoiner_Next_drained:
  "State (base m) \<noteq> StateRunning \<Longrightarrow> mergeJoiner_Next prh m = (m', row, meta) \<Longrightarrow>
     row = None \<and> State (base m') \<noteq> StateRunning \<and>
     (meta = None \<longrightarrow> State (base m') = StateExhausted)"
  using DrainHelper_not_Running [of "base m"]
  by (auto simp: mergeJoiner_Next_not_Running mjDrain_def split: prod.splits
      dest: DrainHelper_None)

lemma mjAfter_Suc: "mjAfter prh (Suc n) m = fst (mergeJoiner_Next prh (mjAfter prh n m))"
  by (simp add: mjAfter_def)

lemma mjAfter_not_Running:
  "State (base m) \<noteq> StateRunning \<Longrightarrow> State (base (mjAfter prh n m)) \<noteq> StateRunning"
proof (induction n)
  case 0
  then show ?case by (simp add: mjAfter_def)
next
  case (Suc n)
  obtain m' row meta where nx: "mergeJoiner_Next prh (mjAfter prh n m) = (m', row, meta)"
    by (cases "mergeJoiner_Next prh (mjAfter prh n m)") auto
  from mergeJoiner_Next_drained [OF Suc.IH [OF Suc.prems] nx]
  have "State (base m') \<noteq> StateRunning" by simp
  with nx show ?case by (simp add: mjAfter_Suc)
qed


lemma nextInputRow_base:
  "nextInputRow ps = (ps', res) \<Longrightarrow> psBase ps' = psBase ps"
  by (auto simp: nextInputRow_def split: list.splits item.splits prod.splits option.splits)

lemma psDrain_Some:
  "psDrain ps = (ps', row, Some md) \<Longrightarrow> State (psBase ps') = StateDraining"
  by (auto simp: psDrain_def split: prod.splits dest: DrainHelper_Some)

lemma readInputRow_Err:
  "readInputRow ps = (ps', Stop (Returns (row, Some md))) \<Longrightarrow> Err md \<noteq> None \<Longrightarrow>
     State (psBase ps) = StateRunning \<Longrightarrow> State (psBase ps') = StateDraining"
  by (auto simp: readInputRow_def MoveToDraining_State
      split: if_splits prod.splits option.splits
      dest!: nextInputRow_base dest: psDrain_Some)

lemma psIteration_Err:
  assumes "psIteration prh ps = (ps', Stop (Returns (row, Some md)))" and "Err md \<noteq> None"
    and "State (psBase ps) = StateRunning"
  shows "State (psBase ps') = StateDraining"
proof -
  let ?p0 = "ps\<lparr>emitCount := emitCount ps + 1\<rparr>"
  show ?thesis
  proof (cases "sint (emitCount ?p0) smod cancelCheckCount = 0 \<and> Ctx_Err ?p0 \<noteq> None")
    case True
    with assms(1) show ?thesis
      by (auto simp: psIteration_def Let_def split: prod.splits dest: psDrain_Some)
  next
    case False
    obtain p1 s1 where r: "readInputRow ?p0 = (p1, s1)" by (cases "readInputRow ?p0")
    show ?thesis
    proof (cases s1)
      case (Stop res)
      with False r assms(1) have "readInputRow ?p0 = (ps', Stop (Returns (row, Some md)))"
        by (auto simp: psIteration_def Let_def)
      from readInputRow_Err [OF this assms(2)] assms(3) show ?thesis by simp
    next
      case Again
      obtain p2 res where g: "nextGeneratorValues p1 = (p2, res)"
        by (cases "nextGeneratorValues p1")
      from False r Again g assms(1) show ?thesis
        by (auto simp: psIteration_def Let_def
            split: prod.splits outcome.splits option.splits if_splits dest: psDrain_Some)
    qed
  qed
qed

lemma projectSetProcessor_Next_Err:
  "projectSetProcessor_Next prh ps = (ps', Returns (row, Some md)) \<Longrightarrow> Err md \<noteq> None \<Longrightarrow>
     State (psBase ps') = StateDraining"
proof (induction prh ps arbitrary: ps' row rule: projectSetProcessor_Next.induct)
  case (1 prh ps)
  show ?case
  proof (cases "State (psBase ps) = StateRunning")
    case False
    with "1.prems" show ?thesis
      by (auto simp: projectSetProcessor_Next.simps [of prh ps] split: prod.splits
          dest: psDrain_Some)
  next
    case True
    obtain p1 s1 where it: "psIteration prh ps = (p1, s1)" by (cases "psIteration prh ps")
    show ?thesis
    proof (cases s1)
      case (Stop res)
      with True it "1.prems" have "psIteration prh ps = (ps', Stop (Returns (row, Some md)))"
        by (simp add: projectSetProcessor_Next.simps [of prh ps])
      from psIteration_Err [OF this "1.prems"(2) True] show ?thesis .
    next
      case Again
      with True it "1.prems"
      have "projectSetProcessor_Next prh p1 = (ps', Returns (row, Some md))"
        by (simp add: projectSetProcessor_Next.simps [of prh ps])
      from "1.IH" [OF True it [symmetric] Again this "1.prems"(2)] show ?thesis .
    qed
  qed
qed

lemma projectSetProcessor_Next_drained:
  assumes "State (psBase ps) \<noteq> StateRunning" and "projectSetProcessor_Next prh ps = (ps', res)"
  shows "\<exists>meta. res = Returns (None, meta) \<and> State (psBase ps') \<noteq> StateRunning \<and>
           (meta = None \<longrightarrow> State (psBase ps') = StateExhausted)"
proof -
  obtain pb meta where d: "DrainHelper (psBase ps) = (pb, meta)"
    by (cases "DrainHelper (psBase ps)")
  with assms have eq: "ps' = ps\<lparr>psBase := pb\<rparr>" "res = Returns (None, meta)"
    by (simp_all add: projectSetProcessor_Next_not_Running psDrain_def)
  from DrainHelper_not_Running [OF assms(1)] d have "State pb \<noteq> StateRunning" by simp
  moreover have "meta = None \<longrightarrow> State pb = StateExhausted"
    using DrainHelper_None [of "psBase ps" pb] d assms(1) by auto
  ultimately show ?thesis using eq by simp
qed

lemma psAfter_Suc:
  "psAfter prh (Suc n) ps = fst (projectSetProcessor_Next prh (psAfter prh n ps))"
  by (simp add: psAfter_def)

lemma psAfter_not_Running:
  "State (psBase ps) \<noteq> StateRunning \<Longrightarrow> State (psBase (psAfter prh n ps)) \<noteq> StateRunning"
proof (induction n)
  case 0
  then show ?case by (simp add: psAfter_def)
next
  case (Suc n)
  obtain ps' res where nx: "projectSetProcessor_Next prh (psAfter prh n ps) = (ps', res)"
    by (cases "projectSetProcessor_Next prh (psAfter prh n ps)")
  from projectSetProcessor_Next_drained [OF Suc.IH [OF Suc.prems] nx]
  have "State (psBase ps') \<noteq> StateRunning" by auto
  with nx show ?case by (simp add: psAfter_Suc)
qed


text \<open>What a draining processor still has to emit or to discard.\<close>

definition drainSize :: "('r, 'e) ProcessorBase \<Rightarrow> nat" where
  "drainSize pb = length (trailingMeta pb) + sum_list (map (\<lambda>src. Suc (length src)) (inputsToDrain pb))
     + length (trailingMetaCallback pb)"

lemma drainInputs_Some:
  "drainInputs ins = (ins', Some md) \<Longrightarrow>
     sum_list (map (\<lambda>src. Suc (length src)) ins') < sum_list (map (\<lambda>src. Suc (length src)) ins)"
  by (induction ins arbitrary: ins' rule: drainInputs.induct) (auto dest: meta_spec)

lemma drainInputs_None:
  "drainInputs ins = (ins', None) \<Longrightarrow> ins' = []"
  by (induction ins arbitrary: ins' rule: drainInputs.induct) auto

lemma DrainHelper_Some_drainSize:
  "DrainHelper pb = (pb', Some md) \<Longrightarrow> drainSize pb' < drainSize pb"
  by (auto simp: DrainHelper_def drainSize_def
      split: procState.splits list.splits prod.splits option.splits
      dest: drainInputs_Some drainInputs_None)

lemma mjAfter_Suc': "mjAfter prh (Suc n) m = mjAfter prh n (fst (mergeJoiner_Next prh m))"
  unfolding mjAfter_def funpow_Suc_right by simp

lemma mjAfter_reaches_Exhausted:
  "State (base m) \<noteq> StateRunning \<Longrightarrow> \<exists>n. State (base (mjAfter prh n m)) = StateExhausted"
proof (induction "drainSize (base m)" arbitrary: m rule: less_induct)
  case less
  obtain pb meta where d: "DrainHelper (base m) = (pb, meta)" by (cases "DrainHelper (base m)")
  with less.prems have nx: "fst (mergeJoiner_Next prh m) = m\<lparr>base := pb\<rparr>"
    by (simp add: mergeJoiner_Next_not_Running mjDrain_def)
  show ?case
  proof (cases meta)
    case None
    from DrainHelper_None [OF d [unfolded None] less.prems] nx
    have "State (base (mjAfter prh 1 m)) = StateExhausted" by (simp add: mjAfter_def)
    then show ?thesis ..
  next
    case (Some md)
    from DrainHelper_Some [OF d [unfolded Some]] DrainHelper_Some_drainSize [OF d [unfolded Some]]
    have "drainSize (base (m\<lparr>base := pb\<rparr>)) < drainSize (base m)"
      "State (base (m\<lparr>base := pb\<rparr>)) \<noteq> StateRunning" by simp_all
    from less.hyps [OF this] obtain n
      where "State (base (mjAfter prh n (m\<lparr>base := pb\<rparr>))) = StateExhausted" ..
    with nx have "State (base (mjAfter prh (Suc n) m)) = StateExhausted"
      by (simp add: mjAfter_Suc')
    then show ?thesis ..
  qed
qed

lemma psAfter_Suc':
  "psAfter prh (Suc n) ps = psAfter prh n (fst (projectSetProcessor_Next prh ps))"
  unfolding psAfter_def funpow_Suc_right by simp

lemma psAfter_reaches_Exhausted:
  "State (psBase ps) \<noteq> StateRunning \<Longrightarrow>
     \<exists>n. State (psBase (psAfter prh n ps)) = StateExhausted"
proof (induction "drainSize (psBase ps)" arbitrary: ps rule: less_induct)
  case less
  obtain pb meta where d: "DrainHelper (psBase ps) = (pb, meta)"
    by (cases "DrainHelper (psBase ps)")
  with less.prems have nx: "fst (projectSetProcessor_Next prh ps) = ps\<lparr>psBase := pb\<rparr>"
    by (simp add: projectSetProcessor_Next_not_Running psDrain_def)
  show ?case
  proof (cases meta)
    case None
    from DrainHelper_None [OF d [unfolded None] less.prems] nx
    have "State (psBase (psAfter prh 1 ps)) = StateExhausted" by (simp add: psAfter_def)
    then show ?thesis ..
  next
    case (Some md)
    from DrainHelper_Some [OF d [unfolded Some]] DrainHelper_Some_drainSize [OF d [unfolded Some]]
    have "drainSize (psBase (ps\<lparr>psBase := pb\<rparr>)) < drainSize (psBase ps)"
      "State (psBase (ps\<lparr>psBase := pb\<rparr>)) \<noteq> StateRunning" by simp_all
    from less.hyps [OF this] obtain n
      where "State (psBase (psAfter prh n (ps\<lparr>psBase := pb\<rparr>))) = StateExhausted" ..
    with nx have "State (psBase (psAfter prh (Suc n) ps)) = StateExhausted"
      by (simp add: psAfter_Suc')
    then show ?thesis ..
  qed
qed

text \<open>
  C1. For every processor (merge joiner, project-set): once a call to \<open>Next()\<close> returns a
  metadata unit whose \<open>Err\<close> field is non-nil, the processor is in the Draining state, and
  no later call to \<open>Next()\<close> (after any number \<open>n\<close> of further calls) returns a row or
  finds the processor running again: every later return is metadata or (nil, nil), and
  after finitely many calls the processor is Exhausted.
\<close>

theorem Err_metadata_then_no_rows:
  "(mergeJoiner_Next prh m = (m', row, Some md) \<and> Err md \<noteq> None \<longrightarrow>
      State (base m') = StateDraining \<and>
      (\<forall>n. fst (snd (mergeJoiner_Next prh (mjAfter prh n m'))) = None \<and>
           State (base (mjAfter prh n m')) \<noteq> StateRunning) \<and>
      (\<exists>n. State (base (mjAfter prh n m')) = StateExhausted)) \<and>
   (projectSetProcessor_Next prh' ps = (ps', Returns (row', Some md')) \<and> Err md' \<noteq> None \<longrightarrow>
      State (psBase ps') = StateDraining \<and>
      (\<forall>n. (\<exists>meta. snd (projectSetProcessor_Next prh' (psAfter prh' n ps')) =
                     Returns (None, meta)) \<and>
           State (psBase (psAfter prh' n ps')) \<noteq> StateRunning) \<and>
      (\<exists>n. State (psBase (psAfter prh' n ps')) = StateExhausted))"
proof (intro conjI impI)
  assume a: "mergeJoiner_Next prh m = (m', row, Some md) \<and> Err md \<noteq> None"
  then show d: "State (base m') = StateDraining"
    using mergeJoiner_Next_Err by blast
  then have nr: "State (base m') \<noteq> StateRunning" by simp
  show "\<forall>n. fst (snd (mergeJoiner_Next prh (mjAfter prh n m'))) = None \<and>
           State (base (mjAfter prh n m')) \<noteq> StateRunning"
  proof
    fix n
    obtain m2 r2 meta2 where nx: "mergeJoiner_Next prh (mjAfter prh n m') = (m2, r2, meta2)"
      by (cases "mergeJoiner_Next prh (mjAfter prh n m')") auto
    from mergeJoiner_Next_drained [OF mjAfter_not_Running [OF nr] nx] nx
      mjAfter_not_Running [OF nr, of prh n]
    show "fst (snd (mergeJoiner_Next prh (mjAfter prh n m'))) = None \<and>
           State (base (mjAfter prh n m')) \<noteq> StateRunning" by simp
  qed
  from mjAfter_reaches_Exhausted [OF nr]
  show "\<exists>n. State (base (mjAfter prh n m')) = StateExhausted" .
next
  assume a: "projectSetProcessor_Next prh' ps = (ps', Returns (row', Some md')) \<and> Err md' \<noteq> None"
  then show d: "State (psBase ps') = StateDraining"
    using projectSetProcessor_Next_Err by blast
  then have nr: "State (psBase ps') \<noteq> StateRunning" by simp
  show "\<forall>n. (\<exists>meta. snd (projectSetProcessor_Next prh' (psAfter prh' n ps')) =
                     Returns (None, meta)) \<and>
           State (psBase (psAfter prh' n ps')) \<noteq> StateRunning"
  proof
    fix n
    obtain p2 res where nx: "projectSetProcessor_Next prh' (psAfter prh' n ps') = (p2, res)"
      by (cases "projectSetProcessor_Next prh' (psAfter prh' n ps')")
    from projectSetProcessor_Next_drained [OF psAfter_not_Running [OF nr] nx] nx
      psAfter_not_Running [OF nr, of prh' n]
    show "(\<exists>meta. snd (projectSetProcessor_Next prh' (psAfter prh' n ps')) =
                     Returns (None, meta)) \<and>
           State (psBase (psAfter prh' n ps')) \<noteq> StateRunning" by auto
  qed
  from psAfter_reaches_Exhausted [OF nr]
  show "\<exists>n. State (psBase (psAfter prh' n ps')) = StateExhausted" .
qed

text \<open>
  Two runs that meet the hypotheses: a merge joiner whose stream merger hands it an error
  as metadata, and a project-set processor whose input does.
\<close>

definition boom :: "string ProducerMetadata" where
  "boom = ProducerMetadata (Some ''boom'') []"

theorem Err_metadata_then_no_rows_witness:
  "snd (mergeJoiner_Next passRow
          (newMergeJoiner InnerJoin renderAll padNull [(None, None, Some boom)])) =
     (None, Some boom) \<and>
   Err boom \<noteq> None \<and>
   State (base (fst (mergeJoiner_Next passRow
          (newMergeJoiner InnerJoin renderAll padNull [(None, None, Some boom)])))) =
     StateDraining \<and>
   (\<forall>n. fst (snd (mergeJoiner_Next passRow (mjAfter passRow n
          (fst (mergeJoiner_Next passRow
             (newMergeJoiner InnerJoin renderAll padNull [(None, None, Some boom)])))))) =
        None) \<and>
   snd (projectSetProcessor_Next passRow (newProjectSetProcessor 1 0 [] [Meta boom] None)) =
     Returns (None, Some boom) \<and>
   State (psBase (fst (projectSetProcessor_Next passRow
          (newProjectSetProcessor 1 0 [] [Meta boom] None)))) = StateDraining \<and>
   (\<forall>n. \<exists>meta. snd (projectSetProcessor_Next passRow (psAfter passRow n
          (fst (projectSetProcessor_Next passRow
             (newProjectSetProcessor 1 0 [] [Meta boom] None))))) = Returns (None, meta))"
proof -
  let ?m = "newMergeJoiner InnerJoin renderAll padNull [(None, None, Some boom)]"
  let ?ps = "newProjectSetProcessor 1 0 [] [Meta boom] None"
  have e: "Err boom \<noteq> None" by (simp add: boom_def)
  have m: "snd (mergeJoiner_Next passRow ?m) = (None, Some boom)"
    by (simp add: mj_eval boom_def)
  then have m': "mergeJoiner_Next passRow ?m = (fst (mergeJoiner_Next passRow ?m), None, Some boom)"
    by (simp add: prod_eq_iff)
  have ps: "snd (projectSetProcessor_Next passRow ?ps) = Returns (None, Some boom)"
    by (simp add: ps_eval boom_def)
  then have ps': "projectSetProcessor_Next passRow ?ps =
      (fst (projectSetProcessor_Next passRow ?ps), Returns (None, Some boom))"
    by (simp add: prod_eq_iff)
  from e m m' ps ps'
    Err_metadata_then_no_rows [of passRow ?m "fst (mergeJoiner_Next passRow ?m)" None boom
      passRow ?ps "fst (projectSetProcessor_Next passRow ?ps)" None boom]
  show ?thesis by blast
qed

section \<open>The merge joiner: what a left row of the batch gets\<close>

text \<open>
  The scan of the right rows for the left row \<open>lrow\<close>, from the right cursor on, meets its
  first match at index \<open>k\<close>, where \<open>render\<close> gives \<open>row\<close>: no error and no match before.
\<close>

definition firstMatch :: "('r, 'e) mergeJoiner \<Rightarrow> 'r \<Rightarrow> nat \<Rightarrow> 'r \<Rightarrow> bool" where
  "firstMatch m lrow k row \<longleftrightarrow>
     rightIdx m \<le> k \<and> k < len (rightRows m) \<and>
     render m lrow (at (rightRows m) k) = Inr (Some row) \<and>
     (\<forall>j \<in> {rightIdx m ..< k}. render m lrow (at (rightRows m) j) = Inr None)"

text \<open>The scan of the right rows for \<open>lrow\<close>, from the right cursor on, meets no match and no error.\<close>

definition noMatch :: "('r, 'e) mergeJoiner \<Rightarrow> 'r \<Rightarrow> bool" where
  "noMatch m lrow \<longleftrightarrow>
     (\<forall>j \<in> {rightIdx m ..< len (rightRows m)}. render m lrow (at (rightRows m) j) = Inr None)"

text \<open>What the loop over the right rows does to the joiner at a match at index \<open>k\<close>.\<close>

definition matched :: "('r, 'e) mergeJoiner \<Rightarrow> nat \<Rightarrow> ('r, 'e) mergeJoiner" where
  "matched m k =
     (if joinType m = LeftAntiJoin \<or> joinType m = ExceptAllJoin
      then m\<lparr>rightIdx := k + 1, matchedRightCount := matchedRightCount m + 1\<rparr>
      else m\<lparr>rightIdx := (if joinType m = LeftSemiJoin \<or> joinType m = IntersectAllJoin
                           then len (rightRows m) else k + 1),
              matchedRight := (if emitUnmatchedRight m then insert k (matchedRight m)
                               else matchedRight m),
              matchedRightCount := matchedRightCount m + 1\<rparr>)"

lemma rightLoop_firstMatch:
  "firstMatch m lrow k row \<Longrightarrow>
     rightLoop m lrow =
       (matched m k,
        if joinType m = LeftAntiJoin \<or> joinType m = ExceptAllJoin then Proceed
        else Return (Some row) None)"
proof (induction m lrow rule: rightLoop.induct)
  case (1 m lrow)
  from "1.prems" have lt: "rightIdx m < len (rightRows m)" by (auto simp: firstMatch_def)
  let ?m1 = "m\<lparr>rightIdx := rightIdx m + 1\<rparr>"
  show ?case
  proof (cases "k = rightIdx m")
    case True
    with "1.prems" have "render m lrow (at (rightRows m) (rightIdx m)) = Inr (Some row)"
      by (simp add: firstMatch_def)
    with lt True show ?thesis
      by (simp add: rightLoop.simps [of m] matched_def Let_def)
  next
    case False
    with "1.prems" have r: "render m lrow (at (rightRows m) (rightIdx m)) = Inr None"
      and fm: "firstMatch ?m1 lrow k row"
      by (auto simp: firstMatch_def)
    have "rightLoop ?m1 lrow =
       (matched ?m1 k,
        if joinType ?m1 = LeftAntiJoin \<or> joinType ?m1 = ExceptAllJoin then Proceed
        else Return (Some row) None)"
      by (rule "1.IH" [OF lt refl refl _ _ fm]) (use r in simp_all)
    with lt r show ?thesis
      by (simp add: rightLoop.simps [of m] matched_def)
  qed
qed

lemma rightLoop_noMatch:
  "noMatch m lrow \<Longrightarrow>
     rightLoop m lrow = (m\<lparr>rightIdx := max (rightIdx m) (len (rightRows m))\<rparr>, Proceed)"
proof (induction m lrow rule: rightLoop.induct)
  case (1 m lrow)
  show ?case
  proof (cases "rightIdx m < len (rightRows m)")
    case False
    then show ?thesis by (simp add: rightLoop.simps [of m] max_def)
  next
    case True
    let ?m1 = "m\<lparr>rightIdx := rightIdx m + 1\<rparr>"
    from "1.prems" True have r: "render m lrow (at (rightRows m) (rightIdx m)) = Inr None"
      and nm: "noMatch ?m1 lrow"
      by (auto simp: noMatch_def)
    have "rightLoop ?m1 lrow =
        (?m1\<lparr>rightIdx := max (rightIdx ?m1) (len (rightRows ?m1))\<rparr>, Proceed)"
      by (rule "1.IH" [OF True refl refl _ _ nm]) (use r in simp_all)
    with True r show ?thesis
      by (simp add: rightLoop.simps [of m] max_def)
  qed
qed


text \<open>The row a loop exit carries, if any.\<close>

fun exitRow :: "('r, 'e) exit \<Rightarrow> 'r option" where
  "exitRow (Return row meta) = row"
| "exitRow Proceed = None"

text \<open>
  While left rows of the batch remain, \<open>nextRow\<close> is one turn of the loop over the left
  rows, and \<open>nextRow\<close> again if the turn returned nothing.
\<close>

lemma nextRow_leftIteration:
  assumes "leftIdx m < len (leftRows m)"
  shows "nextRow m =
     (case leftIteration m of
        (m', Return row meta) \<Rightarrow> (m', row, meta)
      | (m', Proceed) \<Rightarrow> nextRow m')"
proof -
  obtain m' x where it: "leftIteration m = (m', x)" by (cases "leftIteration m")
  show ?thesis
  proof (cases x)
    case (Return row meta)
    with it assms show ?thesis
      by (simp add: nextRow.simps [of m] leftLoop.simps [of m])
  next
    case Proceed
    with it assms have "leftLoop m = leftLoop m'" by (simp add: leftLoop.simps [of m])
    then have "nextRow m = nextRow m'"
      by (simp add: nextRow.simps [of m] nextRow.simps [of m'])
    with it Proceed show ?thesis by simp
  qed
qed

lemma Check_None:
  "snd (Check m) = None \<Longrightarrow> Check m = (m\<lparr>cancelChecker := tl (cancelChecker m)\<rparr>, None)"
  by (auto simp: Check_def split: list.splits)

lemma Check_fields:
  "joinType (fst (Check m)) = joinType m" "leftIdx (fst (Check m)) = leftIdx m"
  "matchedRightCount (fst (Check m)) = matchedRightCount m"
  "rightIdx (fst (Check m)) = rightIdx m"
  "renderUnmatchedRow (fst (Check m)) = renderUnmatchedRow m"
  by (auto simp: Check_def split: list.splits)

lemma Check_matched:
  "snd (Check (matched m k)) = snd (Check m)"
  by (auto simp: Check_def matched_def split: list.splits)

lemma leftIteration_anti_match:
  assumes jt: "joinType m = LeftAntiJoin \<or> joinType m = ExceptAllJoin"
    and fm: "firstMatch m (at (leftRows m) (leftIdx m)) k row"
  shows "leftIteration m =
     (case Check (m\<lparr>rightIdx := k + 1, matchedRightCount := matchedRightCount m + 1\<rparr>) of
        (m', Some err) \<Rightarrow> (m', Return None (Some (ProducerMetadata (Some err) [])))
      | (m', None) \<Rightarrow>
          (m'\<lparr>leftIdx := leftIdx m + 1,
              rightIdx := (if joinType m = ExceptAllJoin then leftIdx m + 1 else 0),
              matchedRightCount := 0\<rparr>, Proceed))"
proof -
  let ?m1 = "m\<lparr>rightIdx := k + 1, matchedRightCount := matchedRightCount m + 1\<rparr>"
  from jt rightLoop_firstMatch [OF fm]
  have rl: "rightLoop m (at (leftRows m) (leftIdx m)) = (?m1, Proceed)"
    by (simp add: matched_def)
  obtain m2 c where ch: "Check ?m1 = (m2, c)" by (cases "Check ?m1")
  from Check_frame [OF ch]
  have f: "joinType m2 = joinType m" "leftIdx m2 = leftIdx m"
    "matchedRightCount m2 = matchedRightCount m + 1" by simp_all
  show ?thesis
  proof (cases c)
    case (Some err)
    with rl ch show ?thesis by (simp add: leftIteration_def)
  next
    case None
    from jt show ?thesis
    proof
      assume "joinType m = LeftAntiJoin"
      with rl ch None f show ?thesis
        by (simp add: leftIteration_def Let_def IsSetOpJoin_def)
    next
      assume "joinType m = ExceptAllJoin"
      with rl ch None f show ?thesis
        by (simp add: leftIteration_def Let_def IsSetOpJoin_def)
    qed
  qed
qed

lemma leftIteration_unmatched:
  assumes se: "shouldEmitUnmatchedRow leftSide (joinType m)" and c0: "matchedRightCount m = 0"
    and nm: "noMatch m (at (leftRows m) (leftIdx m))" and ck: "snd (Check m) = None"
  shows "leftIteration m =
     (m\<lparr>cancelChecker := tl (cancelChecker m), leftIdx := leftIdx m + 1,
        rightIdx := (if IsSetOpJoin (joinType m) then leftIdx m + 1 else 0)\<rparr>,
      Return (Some (renderUnmatchedRow m (at (leftRows m) (leftIdx m)) leftSide)) None)"
proof -
  let ?m1 = "m\<lparr>rightIdx := max (rightIdx m) (len (rightRows m))\<rparr>"
  note rl = rightLoop_noMatch [OF nm]
  obtain m2 c where ch: "Check ?m1 = (m2, c)" by (cases "Check ?m1")
  with ck have c: "c = None" and m2: "m2 = ?m1\<lparr>cancelChecker := tl (cancelChecker m)\<rparr>"
    by (auto simp: Check_def split: list.splits)
  from se c0 rl ch c show ?thesis
    unfolding m2 by (simp add: leftIteration_def Let_def)
qed


text \<open>Collaborators and a batch for the examples: \<open>renderEq\<close> has an ON condition.\<close>

definition renderEq :: "nat list \<Rightarrow> nat list \<Rightarrow> string + nat list option" where
  "renderEq l r = (if hd l = hd r then Inr (Some (l @ r)) else Inr None)"

definition withBatch ::
  "('r, 'e) mergeJoiner \<Rightarrow> 'r list \<Rightarrow> 'r list \<Rightarrow> ('r, 'e) mergeJoiner" where
  "withBatch m ls rs = m\<lparr>leftRows := Some ls, rightRows := Some rs\<rparr>"

text \<open>
  C3, as amended. For left-anti and except-all join types, whenever the scan of the right
  rows for a left row (from the right cursor on: index 0 for left-anti, the left row's
  own index for except-all) finds a match, at index \<open>k\<close>: the scan stops there (the
  right cursor is \<open>k + 1\<close>, the loop is left without a return), the turn for this left
  row returns no row, and with a passing cancellation check \<open>nextRow\<close> goes on as from
  the next left row. A left row with no match so far (\<open>matchedRightCount = 0\<close>) and none
  from the right cursor on is returned as \<open>renderUnmatchedRow\<close> renders it for the left
  side, for every join type that emits unmatched left rows (left outer, full outer,
  left anti, except-all).
\<close>

theorem anti_join_left_row:
  assumes lt: "leftIdx m < len (leftRows m)"
  shows
   "((joinType m = LeftAntiJoin \<or> joinType m = ExceptAllJoin) \<and>
     firstMatch m (at (leftRows m) (leftIdx m)) k row \<longrightarrow>
       rightLoop m (at (leftRows m) (leftIdx m)) =
         (m\<lparr>rightIdx := k + 1, matchedRightCount := matchedRightCount m + 1\<rparr>, Proceed) \<and>
       exitRow (snd (leftIteration m)) = None \<and>
       (snd (Check m) = None \<longrightarrow>
          nextRow m =
            nextRow (m\<lparr>cancelChecker := tl (cancelChecker m), leftIdx := leftIdx m + 1,
                       rightIdx := (if joinType m = ExceptAllJoin then leftIdx m + 1 else 0),
                       matchedRightCount := 0\<rparr>))) \<and>
    (shouldEmitUnmatchedRow leftSide (joinType m) \<and> matchedRightCount m = 0 \<and>
     noMatch m (at (leftRows m) (leftIdx m)) \<and> snd (Check m) = None \<longrightarrow>
       snd (nextRow m) =
         (Some (renderUnmatchedRow m (at (leftRows m) (leftIdx m)) leftSide), None) \<and>
       leftIdx (fst (nextRow m)) = leftIdx m + 1)"
proof (intro conjI impI)
  assume a: "(joinType m = LeftAntiJoin \<or> joinType m = ExceptAllJoin) \<and>
     firstMatch m (at (leftRows m) (leftIdx m)) k row"
  let ?m1 = "m\<lparr>rightIdx := k + 1, matchedRightCount := matchedRightCount m + 1\<rparr>"
  from a rightLoop_firstMatch [of m "at (leftRows m) (leftIdx m)" k row]
  show "rightLoop m (at (leftRows m) (leftIdx m)) = (?m1, Proceed)"
    by (simp add: matched_def)
  from a have jt: "joinType m = LeftAntiJoin \<or> joinType m = ExceptAllJoin"
    and fm: "firstMatch m (at (leftRows m) (leftIdx m)) k row" by blast+
  note li = leftIteration_anti_match [OF jt fm]
  show "exitRow (snd (leftIteration m)) = None"
    unfolding li by (cases "Check ?m1") (auto split: option.splits)
  assume ck: "snd (Check m) = None"
  then have "Check ?m1 = (?m1\<lparr>cancelChecker := tl (cancelChecker m)\<rparr>, None)"
    by (auto simp: Check_def split: list.splits)
  with li have "leftIteration m =
      (m\<lparr>cancelChecker := tl (cancelChecker m), leftIdx := leftIdx m + 1,
         rightIdx := (if joinType m = ExceptAllJoin then leftIdx m + 1 else 0),
         matchedRightCount := 0\<rparr>, Proceed)"
    by simp
  with nextRow_leftIteration [OF lt]
  show "nextRow m =
      nextRow (m\<lparr>cancelChecker := tl (cancelChecker m), leftIdx := leftIdx m + 1,
                 rightIdx := (if joinType m = ExceptAllJoin then leftIdx m + 1 else 0),
                 matchedRightCount := 0\<rparr>)"
    by simp
next
  assume b: "shouldEmitUnmatchedRow leftSide (joinType m) \<and> matchedRightCount m = 0 \<and>
     noMatch m (at (leftRows m) (leftIdx m)) \<and> snd (Check m) = None"
  then have b': "shouldEmitUnmatchedRow leftSide (joinType m)" "matchedRightCount m = 0"
    "noMatch m (at (leftRows m) (leftIdx m))" "snd (Check m) = None" by blast+
  from leftIteration_unmatched [OF b'] nextRow_leftIteration [OF lt]
  show "snd (nextRow m) =
         (Some (renderUnmatchedRow m (at (leftRows m) (leftIdx m)) leftSide), None)"
    and "leftIdx (fst (nextRow m)) = leftIdx m + 1"
    by simp_all
qed

theorem anti_join_left_row_witness:
  "firstMatch (withBatch (newMergeJoiner LeftAntiJoin renderEq padNull []) [[1], [2]] [[1]])
     [1] 0 [1, 1] \<and>
   exitRow (snd (leftIteration
     (withBatch (newMergeJoiner LeftAntiJoin renderEq padNull []) [[1], [2]] [[1]]))) = None \<and>
   noMatch ((withBatch (newMergeJoiner LeftAntiJoin renderEq padNull []) [[1], [2]] [[1]])
              \<lparr>leftIdx := 1\<rparr>) [2] \<and>
   snd (nextRow ((withBatch (newMergeJoiner LeftAntiJoin renderEq padNull []) [[1], [2]] [[1]])
              \<lparr>leftIdx := 1\<rparr>)) = (Some [2, 0], None) \<and>
   snd (nextRow (withBatch (newMergeJoiner LeftAntiJoin renderEq padNull []) [[1], [2]] [[1]])) =
     (Some [2, 0], None)"
proof -
  let ?m = "withBatch (newMergeJoiner LeftAntiJoin renderEq padNull []) [[1], [2]] [[1]]"
  let ?m1 = "?m\<lparr>leftIdx := 1\<rparr>"
  have fm: "firstMatch ?m [1] 0 [1, 1]" and nm: "noMatch ?m1 [2]"
    by (simp_all add: firstMatch_def noMatch_def withBatch_def newMergeJoiner_def renderEq_def)
  have f: "leftIdx ?m < len (leftRows ?m)" "leftIdx ?m1 < len (leftRows ?m1)"
    "joinType ?m = LeftAntiJoin" "at (leftRows ?m) (leftIdx ?m) = [1]"
    "at (leftRows ?m1) (leftIdx ?m1) = [2]" "snd (Check ?m) = None" "snd (Check ?m1) = None"
    "shouldEmitUnmatchedRow leftSide (joinType ?m1)" "matchedRightCount ?m1 = 0"
    "renderUnmatchedRow ?m1 = padNull"
    "?m\<lparr>cancelChecker := tl (cancelChecker ?m), leftIdx := leftIdx ?m + 1,
         rightIdx := (if joinType ?m = ExceptAllJoin then leftIdx ?m + 1 else 0),
         matchedRightCount := 0\<rparr> = ?m1"
    by (simp_all add: withBatch_def newMergeJoiner_def Check_def shouldEmitUnmatchedRow_def)
  from anti_join_left_row [OF f(1), of 0 "[1, 1]"] fm f
  have 1: "exitRow (snd (leftIteration ?m)) = None" "nextRow ?m = nextRow ?m1"
    by simp_all
  from anti_join_left_row [OF f(2), of 0 "[1, 1]"] nm f
  have 2: "snd (nextRow ?m1) = (Some (padNull [2] leftSide), None)"
    by simp
  from fm nm 1 2 show ?thesis by (simp add: padNull_def)
qed

text \<open>
  C3 as stated fails for except-all: in the batch of left rows [1], [1] and right row [1]
  (no ON condition) each left row matches the right row, and the joiner still emits a
  left row of the batch as unmatched: the scan for the second left row starts behind the
  right row that the first one consumed.
\<close>

theorem except_all_left_row_counterexample:
  "renderAll [1] [1] = Inr (Some [1, 1]) \<and>
   snd (nextRow (newMergeJoiner ExceptAllJoin renderAll padNull
                   [(Some [[1], [1]], Some [[1]], None)])) =
     (Some (padNull [1] leftSide), None)"
  by (simp add: mj_eval)

lemma leftIteration_semi_done:
  assumes jt: "joinType m = LeftSemiJoin \<or> joinType m = IntersectAllJoin"
    and ri: "len (rightRows m) \<le> rightIdx m"
  shows "exitRow (snd (leftIteration m)) = None"
proof -
  from ri have rl: "rightLoop m (at (leftRows m) (leftIdx m)) = (m, Proceed)"
    by (simp add: rightLoop.simps [of m])
  obtain m2 c where ch: "Check m = (m2, c)" by (cases "Check m")
  from Check_frame [OF ch] have f: "joinType m2 = joinType m" by simp
  from jt rl ch f show ?thesis
    by (cases c) (auto simp: leftIteration_def Let_def shouldEmitUnmatchedRow_def)
qed

text \<open>
  C5, as amended. For left-semi and intersect-all join types, when the scan of the right
  rows for a left row (from the right cursor on: index 0 for left-semi, the left row's
  own index for intersect-all) finds a match: \<open>nextRow\<close> returns the rendered row, the
  right cursor is at the end of the right batch with the left cursor unmoved, and the
  rest of the turn for this left row scans no right row and returns no row.
\<close>

theorem semi_join_match:
  assumes lt: "leftIdx m < len (leftRows m)"
    and jt: "joinType m = LeftSemiJoin \<or> joinType m = IntersectAllJoin"
    and fm: "firstMatch m (at (leftRows m) (leftIdx m)) k row"
  shows "snd (nextRow m) = (Some row, None) \<and>
         rightIdx (fst (nextRow m)) = len (rightRows m) \<and>
         leftIdx (fst (nextRow m)) = leftIdx m \<and>
         leftRows (fst (nextRow m)) = leftRows m \<and>
         rightRows (fst (nextRow m)) = rightRows m \<and>
         rightLoop (fst (nextRow m)) (at (leftRows m) (leftIdx m)) = (fst (nextRow m), Proceed) \<and>
         exitRow (snd (leftIteration (fst (nextRow m)))) = None"
proof -
  from jt rightLoop_firstMatch [OF fm]
  have "rightLoop m (at (leftRows m) (leftIdx m)) = (matched m k, Return (Some row) None)"
    by auto
  then have "leftIteration m = (matched m k, Return (Some row) None)"
    by (simp add: leftIteration_def)
  with nextRow_leftIteration [OF lt] have nr: "nextRow m = (matched m k, Some row, None)"
    by simp
  from jt have mk: "rightIdx (matched m k) = len (rightRows m)" "leftIdx (matched m k) = leftIdx m"
    "leftRows (matched m k) = leftRows m" "rightRows (matched m k) = rightRows m"
    "joinType (matched m k) = joinType m"
    by (auto simp: matched_def)
  from mk have rl: "rightLoop (matched m k) (at (leftRows m) (leftIdx m)) = (matched m k, Proceed)"
    by (simp add: rightLoop.simps [of "matched m k"])
  from jt mk have "exitRow (snd (leftIteration (matched m k))) = None"
    by (intro leftIteration_semi_done) simp_all
  with nr mk rl show ?thesis by simp
qed

theorem semi_join_match_witness:
  "firstMatch (withBatch (newMergeJoiner LeftSemiJoin renderEq padNull []) [[1]] [[0], [1], [1]])
     [1] 1 [1, 1] \<and>
   snd (nextRow (withBatch (newMergeJoiner LeftSemiJoin renderEq padNull []) [[1]] [[0], [1], [1]]))
     = (Some [1, 1], None) \<and>
   rightIdx (fst (nextRow
     (withBatch (newMergeJoiner LeftSemiJoin renderEq padNull []) [[1]] [[0], [1], [1]]))) = 3 \<and>
   exitRow (snd (leftIteration (fst (nextRow
     (withBatch (newMergeJoiner LeftSemiJoin renderEq padNull []) [[1]] [[0], [1], [1]]))))) = None"
proof -
  let ?m = "withBatch (newMergeJoiner LeftSemiJoin renderEq padNull []) [[1]] [[0], [1], [1]]"
  have fm: "firstMatch ?m [1] 1 [1, 1]"
    by (simp add: firstMatch_def withBatch_def newMergeJoiner_def renderEq_def)
  have f: "leftIdx ?m < len (leftRows ?m)"
    "joinType ?m = LeftSemiJoin \<or> joinType ?m = IntersectAllJoin"
    "at (leftRows ?m) (leftIdx ?m) = [1]" "len (rightRows ?m) = 3"
    by (simp_all add: withBatch_def newMergeJoiner_def)
  from fm f(3) have "firstMatch ?m (at (leftRows ?m) (leftIdx ?m)) 1 [1, 1]" by simp
  from semi_join_match [OF f(1,2) this] fm f(4) show ?thesis by simp
qed

text \<open>
  C5 as stated fails for intersect-all: in the batch of left rows [1], [1] and right row
  [1] (no ON condition) each left row matches the right row, and the joiner emits one
  row for the whole batch, not one for each left row: the second call of \<open>nextRow\<close>
  finds the batches and the merger exhausted.
\<close>

theorem intersect_all_left_row_counterexample:
  "renderAll [1] [1] = Inr (Some [1, 1]) \<and>
   snd (nextRow (newMergeJoiner IntersectAllJoin renderAll padNull
                   [(Some [[1], [1]], Some [[1]], None)])) = (Some [1, 1], None) \<and>
   snd (nextRow (fst (nextRow (newMergeJoiner IntersectAllJoin renderAll padNull
                   [(Some [[1], [1]], Some [[1]], None)])))) = (None, None)"
  by (simp add: mj_eval)


section \<open>The merge joiner: the right cursor of the set operations\<close>

text \<open>
  Two slices of right rows of the same length that hold the same rows from index \<open>i\<close> on.
\<close>

definition sameFrom :: "nat \<Rightarrow> 'r rows \<Rightarrow> 'r rows \<Rightarrow> bool" where
  "sameFrom i rs rs' \<longleftrightarrow> len rs' = len rs \<and> (\<forall>j \<in> {i ..< len rs}. at rs' j = at rs j)"

lemma sameFrom_mono: "sameFrom i rs rs' \<Longrightarrow> i \<le> j \<Longrightarrow> sameFrom j rs rs'"
  by (auto simp: sameFrom_def)

lemma rightLoop_sameFrom:
  "sameFrom (rightIdx m) (rightRows m) rs' \<Longrightarrow>
     rightLoop (m\<lparr>rightRows := rs'\<rparr>) lrow =
       (case rightLoop m lrow of (m1, x) \<Rightarrow> (m1\<lparr>rightRows := rs'\<rparr>, x))"
proof (induction m lrow rule: rightLoop.induct)
  case (1 m lrow)
  let ?m' = "m\<lparr>rightRows := rs'\<rparr>"
  from "1.prems" have ln: "len rs' = len (rightRows m)" by (simp add: sameFrom_def)
  show ?case
  proof (cases "rightIdx m < len (rightRows m)")
    case False
    with ln show ?thesis by (simp add: rightLoop.simps [of m] rightLoop.simps [of ?m'])
  next
    case True
    with "1.prems" have eq: "at rs' (rightIdx m) = at (rightRows m) (rightIdx m)"
      by (simp add: sameFrom_def)
    let ?m1 = "m\<lparr>rightIdx := rightIdx m + 1\<rparr>"
    show ?thesis
    proof (cases "render m lrow (at (rightRows m) (rightIdx m))")
      case (Inl err)
      with True ln eq show ?thesis
        by (simp add: rightLoop.simps [of m] rightLoop.simps [of ?m'])
    next
      case (Inr r)
      show ?thesis
      proof (cases r)
        case None
        from "1.prems" have sf: "sameFrom (rightIdx ?m1) (rightRows ?m1) rs'"
          by (auto simp: sameFrom_def)
        have swap: "?m'\<lparr>rightIdx := rightIdx ?m' + 1\<rparr> = ?m1\<lparr>rightRows := rs'\<rparr>"
          by simp
        have "rightLoop (?m'\<lparr>rightIdx := rightIdx ?m' + 1\<rparr>) lrow =
            (case rightLoop ?m1 lrow of (m1, x) \<Rightarrow> (m1\<lparr>rightRows := rs'\<rparr>, x))"
          unfolding swap by (rule "1.IH" [OF True refl refl _ _ sf]) (use Inr None in simp_all)
        with Inr None True ln eq show ?thesis
          by (simp add: rightLoop.simps [of m] rightLoop.simps [of ?m'])
      next
        case (Some renderedRow)
        with Inr True ln eq show ?thesis
          by (simp add: rightLoop.simps [of m] rightLoop.simps [of ?m'] Let_def)
      qed
    qed
  qed
qed


lemma Check_rightRows:
  "Check (m\<lparr>rightRows := rs'\<rparr>) = (case Check m of (m1, c) \<Rightarrow> (m1\<lparr>rightRows := rs'\<rparr>, c))"
  by (simp add: Check_def split: list.splits)

lemma leftIteration_sameFrom:
  assumes sf: "sameFrom (rightIdx m) (rightRows m) rs'"
  shows "leftIteration (m\<lparr>rightRows := rs'\<rparr>) =
           (case leftIteration m of (m1, x) \<Rightarrow> (m1\<lparr>rightRows := rs'\<rparr>, x))"
proof -
  let ?lrow = "at (leftRows m) (leftIdx m)"
  obtain m1 x1 where rl: "rightLoop m ?lrow = (m1, x1)" by (cases "rightLoop m ?lrow")
  from rightLoop_sameFrom [OF sf, of ?lrow] rl
  have rl': "rightLoop (m\<lparr>rightRows := rs'\<rparr>) ?lrow = (m1\<lparr>rightRows := rs'\<rparr>, x1)" by simp
  obtain m2 c where ch: "Check m1 = (m2, c)" by (cases "Check m1")
  with Check_rightRows [where m = m1 and rs' = rs']
  have ch': "Check (m1\<lparr>rightRows := rs'\<rparr>) = (m2\<lparr>rightRows := rs'\<rparr>, c)" by simp
  from rl rl' ch ch' show ?thesis
    by (cases x1; cases c) (simp_all add: leftIteration_def Let_def)
qed

lemma leftIteration_cursors:
  assumes "IsSetOpJoin (joinType m)" and "leftIdx m \<le> rightIdx m"
    and "leftIteration m = (m', x)"
  shows "leftIdx m \<le> leftIdx m' \<and> leftIdx m' \<le> rightIdx m'"
proof -
  let ?lrow = "at (leftRows m) (leftIdx m)"
  obtain m1 x1 where rl: "rightLoop m ?lrow = (m1, x1)" by (cases "rightLoop m ?lrow")
  note f1 = rightLoop_frame [OF rl]
  obtain m2 c where ch: "Check m1 = (m2, c)" by (cases "Check m1")
  note f2 = Check_frame [OF ch]
  from assms rl ch f1 f2 show ?thesis
    by (cases x1; cases c) (auto simp: leftIteration_def Let_def split: if_splits)
qed

lemma leftLoop_sameFrom:
  "IsSetOpJoin (joinType m) \<Longrightarrow> leftIdx m \<le> rightIdx m \<Longrightarrow>
   sameFrom (leftIdx m) (rightRows m) rs' \<Longrightarrow>
     leftLoop (m\<lparr>rightRows := rs'\<rparr>) =
       (case leftLoop m of (m1, x) \<Rightarrow> (m1\<lparr>rightRows := rs'\<rparr>, x)) \<and>
     leftIdx (fst (leftLoop m)) \<le> rightIdx (fst (leftLoop m)) \<and>
     leftIdx m \<le> leftIdx (fst (leftLoop m))"
proof (induction m rule: leftLoop.induct)
  case (1 m)
  let ?m' = "m\<lparr>rightRows := rs'\<rparr>"
  show ?case
  proof (cases "leftIdx m < len (leftRows m)")
    case False
    with "1.prems" show ?thesis
      by (simp add: leftLoop.simps [of m] leftLoop.simps [of ?m'])
  next
    case True
    obtain m1 x1 where it: "leftIteration m = (m1, x1)" by (cases "leftIteration m")
    from "1.prems" have sf: "sameFrom (rightIdx m) (rightRows m) rs'"
      by (auto intro: sameFrom_mono)
    from leftIteration_sameFrom [OF sf] it
    have it': "leftIteration ?m' = (m1\<lparr>rightRows := rs'\<rparr>, x1)" by simp
    note cu = leftIteration_cursors [OF "1.prems"(1,2) it]
    note fr = leftIteration_frame [OF it]
    show ?thesis
    proof (cases x1)
      case (Return row meta)
      with True it it' cu show ?thesis
        by (simp add: leftLoop.simps [of m] leftLoop.simps [of ?m'])
    next
      case Proceed
      from "1.prems" fr cu have p: "IsSetOpJoin (joinType m1)" "leftIdx m1 \<le> rightIdx m1"
        "sameFrom (leftIdx m1) (rightRows m1) rs'"
        by (auto intro: sameFrom_mono)
      from "1.IH" [OF True it [symmetric] Proceed p] True it it' Proceed cu show ?thesis
        by (simp add: leftLoop.simps [of m] leftLoop.simps [of ?m'])
    qed
  qed
qed

lemma unmatchedRightLoop_sameFrom:
  "sameFrom (rightIdx m) (rightRows m) rs' \<Longrightarrow>
     unmatchedRightLoop (m\<lparr>rightRows := rs'\<rparr>) =
       (case unmatchedRightLoop m of (m1, x) \<Rightarrow> (m1\<lparr>rightRows := rs'\<rparr>, x))"
proof (induction m rule: unmatchedRightLoop.induct)
  case (1 m)
  let ?m' = "m\<lparr>rightRows := rs'\<rparr>"
  from "1.prems" have ln: "len rs' = len (rightRows m)" by (simp add: sameFrom_def)
  show ?case
  proof (cases "rightIdx m < len (rightRows m)")
    case False
    with ln show ?thesis
      by (simp add: unmatchedRightLoop.simps [of m] unmatchedRightLoop.simps [of ?m'])
  next
    case True
    with "1.prems" have eq: "at rs' (rightIdx m) = at (rightRows m) (rightIdx m)"
      by (simp add: sameFrom_def)
    let ?m1 = "m\<lparr>rightIdx := rightIdx m + 1\<rparr>"
    show ?thesis
    proof (cases "rightIdx m \<in> matchedRight m")
      case False
      with True ln eq show ?thesis
        by (simp add: unmatchedRightLoop.simps [of m] unmatchedRightLoop.simps [of ?m'] Let_def)
    next
      case in_set: True
      from "1.prems" have sf: "sameFrom (rightIdx ?m1) (rightRows ?m1) rs'"
        by (auto simp: sameFrom_def)
      have swap: "?m'\<lparr>rightIdx := rightIdx ?m' + 1\<rparr> = ?m1\<lparr>rightRows := rs'\<rparr>"
        by simp
      have "unmatchedRightLoop (?m'\<lparr>rightIdx := rightIdx ?m' + 1\<rparr>) =
          (case unmatchedRightLoop ?m1 of (m1, x) \<Rightarrow> (m1\<lparr>rightRows := rs'\<rparr>, x))"
        unfolding swap by (rule "1.IH" [OF True refl refl _ sf]) (use in_set in simp)
      with in_set True ln eq show ?thesis
        by (simp add: unmatchedRightLoop.simps [of m] unmatchedRightLoop.simps [of ?m'] Let_def)
    qed
  qed
qed


lemma emitUnmatchedRightRows_sameFrom:
  assumes sf: "sameFrom (rightIdx m) (rightRows m) rs'"
  shows "emitUnmatchedRightRows (m\<lparr>rightRows := rs'\<rparr>) =
           (case emitUnmatchedRightRows m of (m1, x) \<Rightarrow> (m1\<lparr>rightRows := rs'\<rparr>, x))"
proof -
  obtain m1 x1 where ul: "unmatchedRightLoop m = (m1, x1)" by (cases "unmatchedRightLoop m")
  with unmatchedRightLoop_sameFrom [OF sf]
  have "unmatchedRightLoop (m\<lparr>rightRows := rs'\<rparr>) = (m1\<lparr>rightRows := rs'\<rparr>, x1)" by simp
  with ul show ?thesis
    by (cases x1) (simp_all add: emitUnmatchedRightRows_def)
qed

lemma NextBatch_rightRows:
  "NextBatch (m\<lparr>rightRows := rs'\<rparr>) =
     (case NextBatch m of (m1, b) \<Rightarrow> (m1\<lparr>rightRows := rs'\<rparr>, b))"
  by (simp add: NextBatch_def split: list.splits)

lemma nextRow_sameFrom:
  assumes so: "IsSetOpJoin (joinType m)" and le: "leftIdx m \<le> rightIdx m"
    and sf: "sameFrom (leftIdx m) (rightRows m) rs'"
  shows "snd (nextRow (m\<lparr>rightRows := rs'\<rparr>)) = snd (nextRow m)"
proof -
  let ?m' = "m\<lparr>rightRows := rs'\<rparr>"
  obtain m1 x1 where ll: "leftLoop m = (m1, x1)" by (cases "leftLoop m")
  from leftLoop_sameFrom [OF so le sf] ll
  have ll': "leftLoop ?m' = (m1\<lparr>rightRows := rs'\<rparr>, x1)"
    and c1: "leftIdx m1 \<le> rightIdx m1" "leftIdx m \<le> leftIdx m1" by simp_all
  note f1 = leftLoop_frame [OF ll]
  show ?thesis
  proof (cases x1)
    case (Return row meta)
    with ll ll' show ?thesis by (simp add: nextRow.simps [of m] nextRow.simps [of ?m'])
  next
    case Proceed
    from sf f1 c1 have sf1: "sameFrom (rightIdx m1) (rightRows m1) rs'"
      by (auto intro: sameFrom_mono)
    obtain m2 x2 where eu: "emitUnmatchedRightRows m1 = (m2, x2)"
      by (cases "emitUnmatchedRightRows m1")
    with emitUnmatchedRightRows_sameFrom [OF sf1]
    have eu': "emitUnmatchedRightRows (m1\<lparr>rightRows := rs'\<rparr>) = (m2\<lparr>rightRows := rs'\<rparr>, x2)"
      by simp
    show ?thesis
    proof (cases x2)
      case (Return row meta)
      with ll ll' Proceed eu eu' show ?thesis
        by (simp add: nextRow.simps [of m] nextRow.simps [of ?m'])
    next
      case P2: Proceed
      obtain m3 l r meta where nb: "NextBatch m2 = (m3, (l, r, meta))"
        by (cases "NextBatch m2") auto
      with NextBatch_rightRows [where m = m2 and rs' = rs']
      have nb': "NextBatch (m2\<lparr>rightRows := rs'\<rparr>) = (m3\<lparr>rightRows := rs'\<rparr>, (l, r, meta))"
        by simp
      have "nextRow ?m' = nextRow m"
        using ll ll' Proceed eu eu' P2 nb nb'
        by (simp add: nextRow.simps [of m] nextRow.simps [of ?m'] Let_def)
      then show ?thesis by simp
    qed
  qed
qed

lemma nextRow_cursors:
  "IsSetOpJoin (joinType m) \<Longrightarrow> leftIdx m \<le> rightIdx m \<Longrightarrow>
     leftIdx (fst (nextRow m)) \<le> rightIdx (fst (nextRow m))"
proof (induction m rule: nextRow.induct)
  case (1 m)
  obtain m1 x1 where ll: "leftLoop m = (m1, x1)" by (cases "leftLoop m")
  have sf: "sameFrom (leftIdx m) (rightRows m) (rightRows m)" by (simp add: sameFrom_def)
  from leftLoop_sameFrom [OF "1.prems" sf] ll
  have c1: "leftIdx m1 \<le> rightIdx m1" by simp
  note f1 = leftLoop_frame [OF ll]
  show ?case
  proof (cases x1)
    case (Return row meta)
    with ll c1 show ?thesis by (simp add: nextRow.simps [of m])
  next
    case Proceed
    obtain m2 x2 where eu: "emitUnmatchedRightRows m1 = (m2, x2)"
      by (cases "emitUnmatchedRightRows m1")
    from emitUnmatchedRightRows_frame [OF eu] c1
    have c2: "leftIdx m2 \<le> rightIdx m2" and j2: "joinType m2 = joinType m1" by simp_all
    show ?thesis
    proof (cases x2)
      case (Return row meta)
      with ll Proceed eu c2 show ?thesis by (simp add: nextRow.simps [of m])
    next
      case P2: Proceed
      obtain m3 l r meta where nb: "NextBatch m2 = (m3, (l, r, meta))"
        by (cases "NextBatch m2") auto
      from nb have f3: "leftIdx m3 = leftIdx m2" "rightIdx m3 = rightIdx m2"
        "joinType m3 = joinType m2"
        by (auto simp: NextBatch_def split: list.splits)
      let ?mb = "m3\<lparr>leftRows := l, rightRows := r\<rparr>"
      let ?m4 = "?mb\<lparr>emitUnmatchedRight := shouldEmitUnmatchedRow rightSide (joinType ?mb),
                       leftIdx := 0, rightIdx := 0\<rparr>"
      show ?thesis
      proof (cases "meta \<noteq> None \<or> (l = None \<and> r = None)")
        case True
        with ll Proceed eu P2 nb have "fst (nextRow m) = ?mb"
          by (auto simp: nextRow.simps [of m] Let_def)
        with c2 f3 show ?thesis by simp
      next
        case False
        with ll Proceed eu P2 nb have rec: "nextRow m = nextRow ?m4"
          by (auto simp: nextRow.simps [of m] Let_def)
        have "leftIdx (fst (nextRow ?m4)) \<le> rightIdx (fst (nextRow ?m4))"
          by (rule "1.IH" [OF ll [symmetric] Proceed eu [symmetric] P2 nb [symmetric]
                refl refl refl])
             (use False "1.prems" f1 j2 f3 in auto)
        with rec show ?thesis by simp
      qed
    qed
  qed
qed

lemma leftIteration_advance:
  assumes "leftIdx (fst (leftIteration m)) \<noteq> leftIdx m"
  shows "leftIdx (fst (leftIteration m)) = leftIdx m + 1 \<and>
         rightIdx (fst (leftIteration m)) = (if IsSetOpJoin (joinType m) then leftIdx m + 1 else 0)"
proof -
  let ?lrow = "at (leftRows m) (leftIdx m)"
  obtain m1 x1 where rl: "rightLoop m ?lrow = (m1, x1)" by (cases "rightLoop m ?lrow")
  note f1 = rightLoop_frame [OF rl]
  obtain m2 c where ch: "Check m1 = (m2, c)" by (cases "Check m1")
  note f2 = Check_frame [OF ch]
  from assms rl ch f1 f2 show ?thesis
    by (cases x1; cases c) (auto simp: leftIteration_def Let_def split: if_splits)
qed

text \<open>
  C4. For intersect-all and except-all join types, when the merge joiner advances from
  one left row of a batch to the next, the right cursor is reset to the left cursor's
  (new) position; for the other join types it is reset to zero. So for the set operations
  the right cursor never falls behind the left cursor, and the right rows before the left
  cursor (those that the earlier left rows of the batch had to match, one each) are never
  read again: what \<open>nextRow\<close> returns does not change when they are replaced by other
  rows.
\<close>

theorem set_op_right_cursor:
  "(leftIdx (fst (leftIteration m)) \<noteq> leftIdx m \<longrightarrow>
      leftIdx (fst (leftIteration m)) = leftIdx m + 1 \<and>
      rightIdx (fst (leftIteration m)) =
        (if IsSetOpJoin (joinType m) then leftIdx (fst (leftIteration m)) else 0)) \<and>
   (IsSetOpJoin (joinType m) \<and> leftIdx m \<le> rightIdx m \<longrightarrow>
      leftIdx (fst (nextRow m)) \<le> rightIdx (fst (nextRow m)) \<and>
      (\<forall>rs'. sameFrom (leftIdx m) (rightRows m) rs' \<longrightarrow>
         snd (nextRow (m\<lparr>rightRows := rs'\<rparr>)) = snd (nextRow m)))"
  using leftIteration_advance [of m] nextRow_cursors [of m] nextRow_sameFrom [of m]
  by auto


text \<open>
  A batch of an INTERSECT ALL: three equal left rows, two equal right rows, no ON
  condition.
\<close>

definition intersectBatch :: "(nat list, string) mergeJoiner" where
  "intersectBatch =
     withBatch (newMergeJoiner IntersectAllJoin renderAll padNull []) [[1], [1], [1]] [[1], [1]]"

theorem set_op_right_cursor_witness:
  "leftIdx (fst (leftIteration (intersectBatch\<lparr>rightIdx := 2, matchedRightCount := 1\<rparr>))) \<noteq>
     leftIdx (intersectBatch\<lparr>rightIdx := 2, matchedRightCount := 1\<rparr>) \<and>
   leftIdx (fst (leftIteration (intersectBatch\<lparr>rightIdx := 2, matchedRightCount := 1\<rparr>))) = 1 \<and>
   rightIdx (fst (leftIteration (intersectBatch\<lparr>rightIdx := 2, matchedRightCount := 1\<rparr>))) = 1 \<and>
   IsSetOpJoin (joinType (intersectBatch\<lparr>leftIdx := 1, rightIdx := 1\<rparr>)) \<and>
   leftIdx (intersectBatch\<lparr>leftIdx := 1, rightIdx := 1\<rparr>) \<le>
     rightIdx (intersectBatch\<lparr>leftIdx := 1, rightIdx := 1\<rparr>) \<and>
   sameFrom 1 (rightRows intersectBatch) (Some [[7], [1]]) \<and>
   snd (nextRow (intersectBatch\<lparr>leftIdx := 1, rightIdx := 1, rightRows := Some [[7], [1]]\<rparr>)) =
     snd (nextRow (intersectBatch\<lparr>leftIdx := 1, rightIdx := 1\<rparr>)) \<and>
   snd (nextRow (intersectBatch\<lparr>leftIdx := 1, rightIdx := 1\<rparr>)) = (Some [1, 1], None)"
proof -
  let ?m0 = "intersectBatch\<lparr>rightIdx := 2, matchedRightCount := 1\<rparr>"
  let ?m1 = "intersectBatch\<lparr>leftIdx := 1, rightIdx := 1\<rparr>"
  have a: "leftIdx (fst (leftIteration ?m0)) \<noteq> leftIdx ?m0"
    by (simp add: intersectBatch_def withBatch_def mj_eval)
  have b: "IsSetOpJoin (joinType ?m0)" "leftIdx ?m0 = 0" "IsSetOpJoin (joinType ?m1)"
    "leftIdx ?m1 \<le> rightIdx ?m1" "leftIdx ?m1 = 1" "rightRows ?m1 = rightRows intersectBatch"
    by (simp_all add: intersectBatch_def withBatch_def mj_eval)
  have c: "sameFrom 1 (rightRows intersectBatch) (Some [[7], [1]])"
    by (simp add: sameFrom_def intersectBatch_def withBatch_def mj_eval)
  have d: "snd (nextRow ?m1) = (Some [1, 1], None)"
    by (simp add: intersectBatch_def withBatch_def mj_eval)
  from set_op_right_cursor [of ?m0] a b
  have 1: "leftIdx (fst (leftIteration ?m0)) = 1" "rightIdx (fst (leftIteration ?m0)) = 1"
    by simp_all
  from set_op_right_cursor [of ?m1] b c
  have 2: "snd (nextRow (?m1\<lparr>rightRows := Some [[7], [1]]\<rparr>)) = snd (nextRow ?m1)"
    by simp
  from a b c d 1 2 show ?thesis by simp
qed

section \<open>Catching the panics of the vectorized engine\<close>









text \<open>
  The value of a panic, as \<open>recover()\<close> returns it: nil (after \<open>panic(nil)\<close>, in the Go
  of this repository), an \<open>error\<close> (the type assertion \<open>err.(error)\<close> holds), a string
  (as the messages of \<open>CatchVectorizedRuntimeError\<close> itself are), or another value.
\<close>

datatype ('e, 'v) panicValue = NilValue | ErrorValue 'e | StringValue string | OtherValue 'v

text \<open>
  What running \<open>operation()\<close> comes to: it completes, or it panics with a value; then
  \<open>stack\<close> holds the lines of \<open>debug.Stack()\<close> in the deferred function, as the
  \<open>bufio.Scanner\<close> yields them one by one.
\<close>

datatype ('e, 'v) run = Completed | Panicked "('e, 'v) panicValue" "string list"


datatype pgcode = Uncategorized | Code string





























section \<open>The project-set processor: the check for cancellation\<close>

text \<open>
  The emit counter is an \<open>int64\<close>: as long as it is not negative and below its maximum,
  incrementing it adds one, and Go's remainder \<open>%\<close> is zero exactly at the multiples of
  the divisor.
\<close>

lemma sint_Suc_64:
  "0 \<le> sint (c :: 64 word) \<Longrightarrow> sint c < 2 ^ 63 - 1 \<Longrightarrow> sint (c + 1) = sint c + 1"
  by (simp add: sint_word_ariths signed_take_bit_int_eq_self)

lemma smod_nonneg: "0 \<le> (k::int) \<Longrightarrow> 0 < l \<Longrightarrow> k smod l = k mod l"
  by (simp add: signed_modulo_int_def sgn_if)


lemma psDrain_frame:
  "psDrain ps = (ps', res) \<Longrightarrow>
     Ctx_Err ps' = Ctx_Err ps \<and> emitCount ps' = emitCount ps \<and> input ps' = input ps"
  by (auto simp: psDrain_def split: prod.splits)

lemma nextInputRow_frame:
  "nextInputRow ps = (ps', res) \<Longrightarrow>
     Ctx_Err ps' = Ctx_Err ps \<and> emitCount ps' = emitCount ps"
  by (auto simp: nextInputRow_def split: list.splits item.splits prod.splits option.splits)

lemma readInputRow_frame:
  "readInputRow ps = (ps', res) \<Longrightarrow>
     Ctx_Err ps' = Ctx_Err ps \<and> emitCount ps' = emitCount ps"
  by (auto simp: readInputRow_def split: if_splits prod.splits option.splits
      dest!: nextInputRow_frame psDrain_frame)

lemma nextGeneratorValues_frame:
  "nextGeneratorValues ps = (ps', res) \<Longrightarrow>
     Ctx_Err ps' = Ctx_Err ps \<and> emitCount ps' = emitCount ps"
  by (auto simp: nextGeneratorValues_def Let_def split: prod.splits)

lemma toEncDatum_Ctx_Err: "toEncDatum (ps\<lparr>Ctx_Err := c\<rparr>) d i = toEncDatum ps d i"
  by (simp add: toEncDatum_def Let_def)

lemma setCol_Ctx_Err: "setCol (ps\<lparr>Ctx_Err := c\<rparr>) buf i v = setCol ps buf i v"
  by (simp add: setCol_def toEncDatum_Ctx_Err)

lemma setValues_Ctx_Err: "setValues (ps\<lparr>Ctx_Err := c\<rparr>) buf i vs = setValues ps buf i vs"
  by (induction vs arbitrary: buf i) (simp_all add: setCol_Ctx_Err split: option.splits)

lemma setNulls_Ctx_Err: "setNulls (ps\<lparr>Ctx_Err := c\<rparr>) buf i n = setNulls ps buf i n"
  by (induction n arbitrary: buf i) (simp_all add: setCol_Ctx_Err split: option.splits)

lemma generatorValues_Ctx_Err:
  "generatorValues (ps\<lparr>Ctx_Err := c\<rparr>) xs buf i nva = generatorValues ps xs buf i nva"
  by (induction xs arbitrary: buf i nva)
     (simp_all add: setCol_Ctx_Err setValues_Ctx_Err setNulls_Ctx_Err
       split: option.splits prod.splits sum.splits)

lemma nextGeneratorValues_Ctx_Err:
  "nextGeneratorValues (ps\<lparr>Ctx_Err := c\<rparr>) =
     (case nextGeneratorValues ps of (ps', res) \<Rightarrow> (ps'\<lparr>Ctx_Err := c\<rparr>, res))"
  by (simp add: nextGeneratorValues_def generatorValues_Ctx_Err Let_def split: prod.splits)

lemma psDrain_Ctx_Err:
  "psDrain (ps\<lparr>Ctx_Err := c\<rparr>) = (case psDrain ps of (ps', res) \<Rightarrow> (ps'\<lparr>Ctx_Err := c\<rparr>, res))"
  by (simp add: psDrain_def split: prod.splits)

lemma nextInputRow_Ctx_Err:
  "nextInputRow (ps\<lparr>Ctx_Err := c\<rparr>) =
     (case nextInputRow ps of (ps', res) \<Rightarrow> (ps'\<lparr>Ctx_Err := c\<rparr>, res))"
  by (simp add: nextInputRow_def split: list.splits item.splits prod.splits option.splits)

lemma readInputRow_Ctx_Err:
  "readInputRow (ps\<lparr>Ctx_Err := c\<rparr>) =
     (case readInputRow ps of (ps', res) \<Rightarrow> (ps'\<lparr>Ctx_Err := c\<rparr>, res))"
proof -
  have swap: "\<And>p b. p\<lparr>Ctx_Err := c, psBase := b\<rparr> = p\<lparr>psBase := b, Ctx_Err := c\<rparr>"
    by simp
  obtain p1 row meta err where n: "nextInputRow ps = (p1, row, meta, err)"
    by (cases "nextInputRow ps") auto
  show ?thesis
    by (simp add: readInputRow_def nextInputRow_Ctx_Err n swap psDrain_Ctx_Err
        split: option.splits prod.splits)
qed

lemma psIteration_frame:
  assumes "psIteration prh ps = (ps', s)"
  shows "Ctx_Err ps' = Ctx_Err ps \<and> emitCount ps' = emitCount ps + 1"
proof -
  let ?p0 = "ps\<lparr>emitCount := emitCount ps + 1\<rparr>"
  obtain p1 s1 where r: "readInputRow ?p0 = (p1, s1)" by (cases "readInputRow ?p0")
  obtain p2 res where g: "nextGeneratorValues p1 = (p2, res)"
    by (cases "nextGeneratorValues p1")
  note f1 = readInputRow_frame [OF r]
  note f2 = nextGeneratorValues_frame [OF g]
  from assms r g f1 f2 show ?thesis
    by (auto simp: psIteration_def Let_def
        split: if_splits prod.splits step.splits outcome.splits option.splits
        dest!: psDrain_frame)
qed

lemma psIteration_check:
  assumes "sint (emitCount ps + 1) smod cancelCheckCount = 0" and "Ctx_Err ps = Some err"
  shows "\<exists>ps' meta. psIteration prh ps = (ps', Stop (Returns (None, meta))) \<and>
           State (psBase ps') \<noteq> StateRunning \<and> input ps' = input ps \<and>
           emitCount ps' = emitCount ps + 1"
proof -
  let ?pb = "MoveToDraining (Some err) (psBase ps)"
  obtain pb meta where d: "DrainHelper ?pb = (pb, meta)" by (cases "DrainHelper ?pb")
  have "State ?pb \<noteq> StateRunning" by (simp add: MoveToDraining_State)
  from DrainHelper_not_Running [OF this] d have "State pb \<noteq> StateRunning" by simp
  with assms d show ?thesis
    by (simp add: psIteration_def Let_def psDrain_def)
qed

lemma psIteration_Ctx_Err:
  assumes "sint (emitCount ps + 1) smod cancelCheckCount \<noteq> 0"
  shows "psIteration prh (ps\<lparr>Ctx_Err := c\<rparr>) =
           (case psIteration prh ps of (ps', r) \<Rightarrow> (ps'\<lparr>Ctx_Err := c\<rparr>, r))"
proof -
  let ?p0 = "ps\<lparr>emitCount := emitCount ps + 1\<rparr>"
  have swap: "\<And>p b. p\<lparr>Ctx_Err := c, psBase := b\<rparr> = p\<lparr>psBase := b, Ctx_Err := c\<rparr>"
    "\<And>p b. p\<lparr>Ctx_Err := c, inputRowReady := b\<rparr> = p\<lparr>inputRowReady := b, Ctx_Err := c\<rparr>"
    "\<And>p b. p\<lparr>Ctx_Err := c, emitCount := b\<rparr> = p\<lparr>emitCount := b, Ctx_Err := c\<rparr>"
    by simp_all
  obtain p1 s1 where r: "readInputRow ?p0 = (p1, s1)" by (cases "readInputRow ?p0")
  obtain p2 res where g: "nextGeneratorValues p1 = (p2, res)"
    by (cases "nextGeneratorValues p1")
  from assms show ?thesis
    by (simp add: psIteration_def Let_def swap readInputRow_Ctx_Err r
        nextGeneratorValues_Ctx_Err g psDrain_Ctx_Err
        split: step.splits outcome.splits option.splits prod.splits)
qed

lemma projectSetProcessor_Next_check:
  assumes "State (psBase ps) = StateRunning"
    and "sint (emitCount ps + 1) smod cancelCheckCount = 0" and "Ctx_Err ps = Some err"
  shows "\<exists>ps' meta. projectSetProcessor_Next prh ps = (ps', Returns (None, meta)) \<and>
           State (psBase ps') \<noteq> StateRunning \<and> input ps' = input ps \<and>
           emitCount ps' = emitCount ps + 1"
  using psIteration_check [OF assms(2,3), of prh] assms(1)
  by (auto simp: projectSetProcessor_Next.simps [of prh ps])

lemma same_block_gen:
  assumes "0 < (m::int)" and "(x + 1) mod m \<noteq> 0"
  shows "(x + 1) div m = x div m"
proof -
  have r: "0 \<le> x mod m" "x mod m < m" using assms(1) by simp_all
  have "x mod m + 1 \<noteq> m"
  proof
    assume "x mod m + 1 = m"
    then have "(x mod m + 1) mod m = 0" by simp
    then have "(x + 1) mod m = 0" by (simp add: mod_add_left_eq)
    with assms(2) show False by simp
  qed
  with r have r': "0 \<le> x mod m + 1" "x mod m + 1 < m" by simp_all
  have "x + 1 = m * (x div m) + (x mod m + 1)" by simp
  from int_div_pos_eq [OF this r'] show ?thesis .
qed

lemma same_block:
  "(x + 1) mod 10000 \<noteq> 0 \<Longrightarrow> (x + 1) div 10000 = (x::int) div 10000"
  using same_block_gen [of 10000 x] by simp

lemma projectSetProcessor_Next_row_counter:
  "projectSetProcessor_Next prh ps = (ps', Returns (Some row, meta)) \<Longrightarrow>
   Ctx_Err ps = Some err \<Longrightarrow> 0 \<le> sint (emitCount ps) \<Longrightarrow>
   sint (emitCount ps) div 10000 < 922337203685477 \<Longrightarrow>
     Ctx_Err ps' = Some err \<and> sint (emitCount ps) < sint (emitCount ps') \<and>
     sint (emitCount ps') div 10000 = sint (emitCount ps) div 10000"
proof (induction prh ps arbitrary: ps' row meta rule: projectSetProcessor_Next.induct)
  case (1 prh ps)
  have run: "State (psBase ps) = StateRunning"
  proof (rule ccontr)
    assume "State (psBase ps) \<noteq> StateRunning"
    from projectSetProcessor_Next_drained [OF this "1.prems"(1)] show False by simp
  qed
  from "1.prems"(3,4) have lt: "sint (emitCount ps) < 2 ^ 63 - 1" by simp
  from sint_Suc_64 [OF "1.prems"(3) lt]
  have suc: "sint (emitCount ps + 1) = sint (emitCount ps) + 1" .
  have nocheck: "sint (emitCount ps + 1) smod cancelCheckCount \<noteq> 0"
  proof
    assume "sint (emitCount ps + 1) smod cancelCheckCount = 0"
    from projectSetProcessor_Next_check [OF run this "1.prems"(2), of prh] "1.prems"(1)
    show False by simp
  qed
  with suc "1.prems"(3) have "(sint (emitCount ps) + 1) mod 10000 \<noteq> 0"
    by (simp add: cancelCheckCount_def smod_nonneg)
  from same_block [OF this]
  have blk: "(sint (emitCount ps) + 1) div 10000 = sint (emitCount ps) div 10000" .
  obtain p1 s1 where it: "psIteration prh ps = (p1, s1)" by (cases "psIteration prh ps")
  note f = psIteration_frame [OF it]
  show ?case
  proof (cases s1)
    case (Stop res)
    with run it "1.prems"(1) have "ps' = p1"
      by (simp add: projectSetProcessor_Next.simps [of prh ps])
    with f suc blk "1.prems"(2) show ?thesis by simp
  next
    case Again
    with run it "1.prems"(1)
    have nx: "projectSetProcessor_Next prh p1 = (ps', Returns (Some row, meta))"
      by (simp add: projectSetProcessor_Next.simps [of prh ps])
    from f suc blk "1.prems"
    have h: "Ctx_Err p1 = Some err" "0 \<le> sint (emitCount p1)"
      "sint (emitCount p1) div 10000 < 922337203685477"
      by simp_all
    from "1.IH" [OF run it [symmetric] Again nx h] f suc blk show ?thesis by simp
  qed
qed


lemma smod_0_iff_dvd: "(k::int) smod l = 0 \<longleftrightarrow> l dvd k"
  by (auto simp: signed_modulo_int_def sgn_if mod_eq_0_iff_dvd)

lemma sint_of_nat_64:
  assumes "int k < 2 ^ 63"
  shows "sint (of_nat k :: 64 word) = int k"
proof -
  have "sint (of_nat k :: 64 word) = sint (word_of_int (int k) :: 64 word)" by simp
  also have "\<dots> = signed_take_bit 63 (int k)" by (simp only: sint_sbintrunc') simp
  also from assms have "\<dots> = int k" by (intro signed_take_bit_int_eq_self) simp_all
  finally show ?thesis .
qed

lemma mod_less_same_block:
  assumes "x div m = y div m" and "x < (y::int)"
  shows "x mod m < y mod m"
proof -
  have x: "x = m * (x div m) + x mod m" by simp
  have "y = m * (y div m) + y mod m" by simp
  with assms(1) have y: "y = m * (x div m) + y mod m" by simp
  from x y assms(2) show ?thesis by linarith
qed

text \<open>The next \<open>n\<close> calls of \<open>Next\<close> each return a row.\<close>

fun rowsReturned ::
  "('d list, 'e) ProcessRowHelper \<Rightarrow> nat \<Rightarrow> ('v, 'd, 't, 'e) projectSetProcessor \<Rightarrow> bool" where
  "rowsReturned prh 0 ps = True"
| "rowsReturned prh (Suc n) ps =
     (case projectSetProcessor_Next prh ps of
        (ps', Returns (Some row, meta)) \<Rightarrow> rowsReturned prh n ps'
      | _ \<Rightarrow> False)"

lemma rowsReturned_Suc:
  "rowsReturned prh (Suc n) ps \<longleftrightarrow>
     (\<exists>ps' row meta. projectSetProcessor_Next prh ps = (ps', Returns (Some row, meta)) \<and>
        rowsReturned prh n ps')"
  by (auto split: prod.splits outcome.splits option.splits)

lemma rowsReturned_bound:
  "rowsReturned prh n ps \<Longrightarrow> Ctx_Err ps = Some err \<Longrightarrow> 0 \<le> sint (emitCount ps) \<Longrightarrow>
   sint (emitCount ps) div 10000 < 922337203685477 \<Longrightarrow>
     int n \<le> 9999 - sint (emitCount ps) mod 10000"
proof (induction n arbitrary: ps)
  case 0
  have "sint (emitCount ps) mod 10000 < 10000" by simp
  then show ?case by simp
next
  case (Suc n)
  from Suc.prems(1) obtain ps' row meta
    where nx: "projectSetProcessor_Next prh ps = (ps', Returns (Some row, meta))"
      and rr: "rowsReturned prh n ps'"
    unfolding rowsReturned_Suc by blast
  from projectSetProcessor_Next_row_counter [OF nx Suc.prems(2,3,4)]
  have c: "Ctx_Err ps' = Some err" "sint (emitCount ps) < sint (emitCount ps')"
    "sint (emitCount ps') div 10000 = sint (emitCount ps) div 10000"
    by simp_all
  from c(2) Suc.prems(3) have nn: "0 \<le> sint (emitCount ps')" by simp
  from c(3) Suc.prems(4) have bb: "sint (emitCount ps') div 10000 < 922337203685477" by simp
  from Suc.IH [OF rr c(1) nn bb]
  have ih: "int n \<le> 9999 - sint (emitCount ps') mod 10000" .
  from mod_less_same_block [OF c(3) [symmetric] c(2)]
  have "sint (emitCount ps) mod 10000 < sint (emitCount ps') mod 10000" .
  with ih show ?case by simp
qed


text \<open>
  A project-set processor over one input row with one set-returning function of 10000
  values, each a row with the number 7, and a context that is canceled from the start;
  \<open>seriesAt k\<close> is the processor after \<open>k\<close> calls of \<open>Next\<close>, for \<open>k\<close> from 1 to 9999.
\<close>

definition series :: "(nat, nat, string) exprState" where
  "series =
     \<lparr>eval = (\<lambda>buf. Inr 0),
      func = Some (\<lambda>row. Inr (Some (ValueGenerator None (replicate 10000 (Inr [7])) []))),
      gen = None, done = False, numCols = 1\<rparr>"

definition canceledSeries :: "(nat, nat, unit, string) projectSetProcessor" where
  "canceledSeries =
     newProjectSetProcessor 1 1 [series] [Row [5]] (Some ''context canceled'')"

definition seriesAt :: "nat \<Rightarrow> (nat, nat, unit, string) projectSetProcessor" where
  "seriesAt k =
     (newProjectSetProcessor 1 1
        [series\<lparr>gen := Some (ValueGenerator None (replicate (10000 - k) (Inr [7])) [7])\<rparr>]
        [] (Some ''context canceled''))
     \<lparr>inputRowReady := True, rowBuffer := [5, 7], emitCount := of_nat k\<rparr>"

lemmas ps_turn =
  psIteration_def readInputRow_def nextInputRow_def
  nextGeneratorValues_def psDrain_def MoveToDraining_def DrainHelper_def
  newProjectSetProcessor_def cancelCheckCount_def genNext_def EmptyGenerator_def
  setCol_def toEncDatum_def copyRow_def passRow_def Let_def

lemma no_check_below_10000:
  assumes "k < 9999"
  shows "sint (of_nat k + 1 :: 64 word) smod 10000 \<noteq> 0"
proof -
  have "sint (of_nat k + 1 :: 64 word) = sint (of_nat (Suc k) :: 64 word)"
    by (simp add: add.commute)
  also from assms have "\<dots> = int (Suc k)" by (intro sint_of_nat_64) simp
  finally have "sint (of_nat k + 1 :: 64 word) smod 10000 = int (Suc k) mod 10000"
    by (simp add: smod_nonneg)
  with assms show ?thesis by simp
qed

lemma canceledSeries_first:
  "psIteration passRow canceledSeries = (seriesAt 1, Stop (Returns (Some [5, 7], None)))"
proof -
  have rep: "replicate 10000 (Inr [7::nat] :: string + nat list) =
      Inr [7] # replicate 9999 (Inr [7])"
    by (simp flip: replicate_Suc)
  show ?thesis
    by (simp add: ps_turn canceledSeries_def seriesAt_def series_def rep smod_nonneg)
qed

lemma seriesAt_turn:
  assumes "k < 9999"
  shows "psIteration passRow (seriesAt k) =
           (seriesAt (Suc k), Stop (Returns (Some [5, 7], None)))"
proof -
  from assms have rep: "replicate (10000 - k) (Inr [7::nat] :: string + nat list) =
      Inr [7] # replicate (10000 - Suc k) (Inr [7])"
    by (simp add: Suc_diff_Suc flip: replicate_Suc)
  from no_check_below_10000 [OF assms] show ?thesis
    by (simp add: ps_turn seriesAt_def series_def rep)
qed


lemma seriesAt_Running: "State (psBase (seriesAt k)) = StateRunning"
  by (simp add: seriesAt_def newProjectSetProcessor_def)

lemma seriesAt_Next:
  "k < 9999 \<Longrightarrow>
     projectSetProcessor_Next passRow (seriesAt k) =
       (seriesAt (Suc k), Returns (Some [5, 7], None))"
  by (simp add: projectSetProcessor_Next.simps [of passRow "seriesAt k"] seriesAt_Running
      seriesAt_turn)

lemma canceledSeries_Next:
  "projectSetProcessor_Next passRow canceledSeries =
     (seriesAt 1, Returns (Some [5, 7], None))"
proof -
  have "State (psBase canceledSeries) = StateRunning"
    by (simp add: canceledSeries_def newProjectSetProcessor_def)
  then show ?thesis
    by (simp add: projectSetProcessor_Next.simps [of passRow canceledSeries]
        canceledSeries_first)
qed

lemma seriesAt_rowsReturned: "k + n \<le> 9999 \<Longrightarrow> rowsReturned passRow n (seriesAt k)"
  by (induction n arbitrary: k) (simp_all add: seriesAt_Next)

lemma canceledSeries_rowsReturned: "rowsReturned passRow 9999 canceledSeries"
proof -
  have "rowsReturned passRow (Suc 9998) canceledSeries"
    unfolding rowsReturned.simps by (simp add: canceledSeries_Next seriesAt_rowsReturned)
  then show ?thesis by simp
qed

lemma psAfter_canceledSeries:
  "k < 9999 \<Longrightarrow> psAfter passRow (Suc k) canceledSeries = seriesAt (Suc k)"
proof (induction k)
  case 0
  show ?case by (simp add: psAfter_def canceledSeries_Next)
next
  case (Suc k)
  then show ?case by (simp add: psAfter_Suc [of passRow "Suc k"] seriesAt_Next)
qed

lemma seriesAt_9999_turn:
  "psIteration passRow (seriesAt 9999) =
     ((seriesAt 9999)
        \<lparr>emitCount := 10000,
          psBase := \<lparr>State = StateDraining, inputsToDrain = [[]], trailingMeta = [],
                     trailingMetaCallback = []\<rparr>\<rparr>,
      Stop (Returns (None, Some (ProducerMetadata (Some ''context canceled'') []))))"
  by (simp add: ps_turn seriesAt_def smod_nonneg)

lemma seriesAt_9999_Next:
  "projectSetProcessor_Next passRow (seriesAt 9999) =
     ((seriesAt 9999)
        \<lparr>emitCount := 10000,
          psBase := \<lparr>State = StateDraining, inputsToDrain = [[]], trailingMeta = [],
                     trailingMetaCallback = []\<rparr>\<rparr>,
      Returns (None, Some (ProducerMetadata (Some ''context canceled'') [])))"
  by (simp add: projectSetProcessor_Next.simps [of passRow "seriesAt 9999"]
      seriesAt_9999_turn seriesAt_Running)

text \<open>
  A project-set processor over 10000 input rows with one set-returning function that has
  no values for any of them (\<open>EvalArgsAndGetGenerator\<close> returns no generator), and a
  context that is canceled from the start; \<open>emptyAt k n\<close> is the processor after \<open>k\<close>
  turns of the loop of \<open>Next\<close>, with \<open>n\<close> input rows left.
\<close>

definition noValues :: "(nat, nat, string) exprState" where
  "noValues =
     \<lparr>eval = (\<lambda>buf. Inr 0), func = Some (\<lambda>row. Inr None), gen = None, done = False,
      numCols = 1\<rparr>"

definition canceledEmpty :: "(nat, nat, unit, string) projectSetProcessor" where
  "canceledEmpty =
     newProjectSetProcessor 1 1 [noValues] (replicate 10000 (Row [5]))
       (Some ''context canceled'')"

definition emptyAt :: "nat \<Rightarrow> nat \<Rightarrow> (nat, nat, unit, string) projectSetProcessor" where
  "emptyAt k n =
     (newProjectSetProcessor 1 1 [noValues\<lparr>gen := Some EmptyGenerator, done := True\<rparr>]
        (replicate n (Row [5])) (Some ''context canceled''))
     \<lparr>rowBuffer := [5, 0], emitCount := of_nat k\<rparr>"

lemma canceledEmpty_first:
  "psIteration passRow canceledEmpty = (emptyAt 1 9999, Again)"
proof -
  have rep: "replicate 10000 (Row [5::nat] :: (nat list, string) item) =
      Row [5] # replicate 9999 (Row [5])"
    by (simp flip: replicate_Suc)
  show ?thesis
    by (simp add: ps_turn canceledEmpty_def emptyAt_def noValues_def rep smod_nonneg)
qed

lemma emptyAt_turn:
  assumes "k < 9999"
  shows "psIteration passRow (emptyAt k (Suc n)) = (emptyAt (Suc k) n, Again)"
  using no_check_below_10000 [OF assms]
  by (simp add: ps_turn emptyAt_def noValues_def)

lemma emptyAt_Running: "State (psBase (emptyAt k n)) = StateRunning"
  by (simp add: emptyAt_def newProjectSetProcessor_def)

lemma emptyAt_Next:
  "k + j \<le> 9999 \<Longrightarrow>
     projectSetProcessor_Next passRow (emptyAt k (j + n)) =
       projectSetProcessor_Next passRow (emptyAt (k + j) n)"
proof (induction j arbitrary: k)
  case 0
  show ?case by simp
next
  case (Suc j)
  then have "k < 9999" "Suc k + j \<le> 9999" by simp_all
  from emptyAt_turn [OF this(1), of "j + n"] Suc.IH [OF this(2)] show ?case
    by (simp add: projectSetProcessor_Next.simps [of passRow "emptyAt k (Suc (j + n))"]
        emptyAt_Running)
qed

lemma emptyAt_9999_turn:
  "psIteration passRow (emptyAt 9999 n) =
     ((emptyAt 9999 n)
        \<lparr>emitCount := 10000,
          psBase := \<lparr>State = StateDraining, inputsToDrain = [[]], trailingMeta = [],
                     trailingMetaCallback = []\<rparr>\<rparr>,
      Stop (Returns (None, Some (ProducerMetadata (Some ''context canceled'') []))))"
  by (simp add: ps_turn emptyAt_def smod_nonneg)

lemma emptyAt_9999_Next:
  "projectSetProcessor_Next passRow (emptyAt 9999 n) =
     ((emptyAt 9999 n)
        \<lparr>emitCount := 10000,
          psBase := \<lparr>State = StateDraining, inputsToDrain = [[]], trailingMeta = [],
                     trailingMetaCallback = []\<rparr>\<rparr>,
      Returns (None, Some (ProducerMetadata (Some ''context canceled'') [])))"
  by (simp add: projectSetProcessor_Next.simps [of passRow "emptyAt 9999 n"]
      emptyAt_9999_turn emptyAt_Running)

lemma canceledEmpty_Next:
  "projectSetProcessor_Next passRow canceledEmpty =
     ((emptyAt 9999 1)
        \<lparr>emitCount := 10000,
          psBase := \<lparr>State = StateDraining, inputsToDrain = [[]], trailingMeta = [],
                     trailingMetaCallback = []\<rparr>\<rparr>,
      Returns (None, Some (ProducerMetadata (Some ''context canceled'') [])))"
proof -
  have "State (psBase canceledEmpty) = StateRunning"
    by (simp add: canceledEmpty_def newProjectSetProcessor_def)
  then have "projectSetProcessor_Next passRow canceledEmpty =
      projectSetProcessor_Next passRow (emptyAt 1 (9998 + 1))"
    by (simp add: projectSetProcessor_Next.simps [of passRow canceledEmpty]
        canceledEmpty_first)
  also have "\<dots> = projectSetProcessor_Next passRow (emptyAt (1 + 9998) 1)"
    by (rule emptyAt_Next) simp
  finally show ?thesis by (simp add: emptyAt_9999_Next)
qed


text \<open>
  C10, as amended. \<open>projectSetProcessor.Next\<close> checks for context cancellation only in
  every 10000th turn of its loop, the turn in which its emit counter, incremented at each
  turn, becomes a multiple of 10000:
  \<^item> a call of \<open>Next\<close> on a running processor with a canceled context, whose first turn
    makes the counter a multiple of 10000, returns no row, reads no input and leaves the
    Running state;
  \<^item> a turn that makes the counter anything else goes as it does with a context that
    is not canceled;
  \<^item> so after cancellation at most 9999 consecutive calls of \<open>Next\<close> return rows (at most
    9999 less the counter modulo 10000), as long as the \<open>int64\<close> counter is not negative
    and 10000 below its overflow;
  \<^item> and 9999 are reached: \<open>canceledSeries\<close>, canceled from the start, returns a row on
    each of its first 9999 calls.
\<close>

theorem cancel_check_every_10000_turns:
  "(State (psBase ps) = StateRunning \<and> Ctx_Err ps = Some err \<and>
    10000 dvd sint (emitCount ps + 1) \<longrightarrow>
      (\<exists>ps' meta. projectSetProcessor_Next prh ps = (ps', Returns (None, meta)) \<and>
         State (psBase ps') \<noteq> StateRunning \<and> input ps' = input ps \<and>
         emitCount ps' = emitCount ps + 1)) \<and>
   (\<not> 10000 dvd sint (emitCount ps + 1) \<longrightarrow>
      psIteration prh ps =
        (case psIteration prh (ps\<lparr>Ctx_Err := None\<rparr>) of
           (ps', r) \<Rightarrow> (ps'\<lparr>Ctx_Err := Ctx_Err ps\<rparr>, r))) \<and>
   (Ctx_Err ps \<noteq> None \<and> 0 \<le> sint (emitCount ps) \<and>
    sint (emitCount ps) < 2 ^ 63 - 10000 \<and> rowsReturned prh n ps \<longrightarrow>
      int n \<le> 9999 - sint (emitCount ps) mod 10000) \<and>
   Ctx_Err canceledSeries \<noteq> None \<and> rowsReturned passRow 9999 canceledSeries"
proof (intro conjI impI)
  assume a: "State (psBase ps) = StateRunning \<and> Ctx_Err ps = Some err \<and>
    10000 dvd sint (emitCount ps + 1)"
  then have "sint (emitCount ps + 1) smod cancelCheckCount = 0"
    by (simp add: smod_0_iff_dvd cancelCheckCount_def)
  with a projectSetProcessor_Next_check [of ps err prh]
  show "\<exists>ps' meta. projectSetProcessor_Next prh ps = (ps', Returns (None, meta)) \<and>
         State (psBase ps') \<noteq> StateRunning \<and> input ps' = input ps \<and>
         emitCount ps' = emitCount ps + 1"
    by blast
next
  assume "\<not> 10000 dvd sint (emitCount ps + 1)"
  then have "sint (emitCount (ps\<lparr>Ctx_Err := None\<rparr>) + 1) smod cancelCheckCount \<noteq> 0"
    by (simp add: smod_0_iff_dvd cancelCheckCount_def)
  from psIteration_Ctx_Err [OF this, of prh "Ctx_Err ps"]
  show "psIteration prh ps =
        (case psIteration prh (ps\<lparr>Ctx_Err := None\<rparr>) of
           (ps', r) \<Rightarrow> (ps'\<lparr>Ctx_Err := Ctx_Err ps\<rparr>, r))"
    by simp
next
  assume a: "Ctx_Err ps \<noteq> None \<and> 0 \<le> sint (emitCount ps) \<and>
    sint (emitCount ps) < 2 ^ 63 - 10000 \<and> rowsReturned prh n ps"
  then obtain e where e: "Ctx_Err ps = Some e" by auto
  from a have "sint (emitCount ps) \<le> 9223372036854765807" by simp
  from zdiv_mono1 [OF this, of 10000]
  have "sint (emitCount ps) div 10000 < 922337203685477" by simp
  with a e rowsReturned_bound [of prh n ps e]
  show "int n \<le> 9999 - sint (emitCount ps) mod 10000" by blast
next
  show "Ctx_Err canceledSeries \<noteq> None"
    by (simp add: canceledSeries_def newProjectSetProcessor_def)
  show "rowsReturned passRow 9999 canceledSeries"
    by (rule canceledSeries_rowsReturned)
qed

text \<open>
  The theorem at \<open>canceledSeries\<close>: its first turn, with the counter at 1, goes as without
  cancellation and returns a row; its first 9999 calls return rows; the call after them,
  whose turn takes the counter to 10000, returns no row and leaves the Running state.
\<close>

theorem cancel_check_every_10000_turns_witness:
  "State (psBase (psAfter passRow 9999 canceledSeries)) = StateRunning \<and>
   Ctx_Err (psAfter passRow 9999 canceledSeries) = Some ''context canceled'' \<and>
   10000 dvd sint (emitCount (psAfter passRow 9999 canceledSeries) + 1) \<and>
   (\<exists>ps' meta.
      projectSetProcessor_Next passRow (psAfter passRow 9999 canceledSeries) =
        (ps', Returns (None, meta)) \<and>
      State (psBase ps') \<noteq> StateRunning \<and>
      input ps' = input (psAfter passRow 9999 canceledSeries) \<and>
      emitCount ps' = emitCount (psAfter passRow 9999 canceledSeries) + 1) \<and>
   \<not> 10000 dvd sint (emitCount canceledSeries + 1) \<and>
   psIteration passRow canceledSeries =
     (case psIteration passRow (canceledSeries\<lparr>Ctx_Err := None\<rparr>) of
        (ps', r) \<Rightarrow> (ps'\<lparr>Ctx_Err := Ctx_Err canceledSeries\<rparr>, r)) \<and>
   snd (psIteration passRow canceledSeries) = Stop (Returns (Some [5, 7], None)) \<and>
   Ctx_Err canceledSeries \<noteq> None \<and> 0 \<le> sint (emitCount canceledSeries) \<and>
   sint (emitCount canceledSeries) < 2 ^ 63 - 10000 \<and>
   rowsReturned passRow 9999 canceledSeries \<and>
   int 9999 \<le> 9999 - sint (emitCount canceledSeries) mod 10000"
proof -
  let ?p = "psAfter passRow 9999 canceledSeries"
  have pa: "?p = seriesAt 9999"
    using psAfter_canceledSeries [of 9998] by simp
  have h1: "State (psBase ?p) = StateRunning \<and> Ctx_Err ?p = Some ''context canceled'' \<and>
      10000 dvd sint (emitCount ?p + 1)"
    unfolding pa by (simp add: seriesAt_def newProjectSetProcessor_def)
  from cancel_check_every_10000_turns
    [where ps = ?p and err = "''context canceled''" and prh = passRow] h1
  have c1: "\<exists>ps' meta. projectSetProcessor_Next passRow ?p = (ps', Returns (None, meta)) \<and>
      State (psBase ps') \<noteq> StateRunning \<and> input ps' = input ?p \<and>
      emitCount ps' = emitCount ?p + 1"
    by blast
  have h2: "\<not> 10000 dvd sint (emitCount canceledSeries + 1)"
    by (simp add: canceledSeries_def newProjectSetProcessor_def)
  from cancel_check_every_10000_turns [where ps = canceledSeries and prh = passRow] h2
  have c2: "psIteration passRow canceledSeries =
     (case psIteration passRow (canceledSeries\<lparr>Ctx_Err := None\<rparr>) of
        (ps', r) \<Rightarrow> (ps'\<lparr>Ctx_Err := Ctx_Err canceledSeries\<rparr>, r))"
    by blast
  have c2': "snd (psIteration passRow canceledSeries) = Stop (Returns (Some [5, 7], None))"
    by (simp add: canceledSeries_first)
  have h3: "Ctx_Err canceledSeries \<noteq> None \<and> 0 \<le> sint (emitCount canceledSeries) \<and>
      sint (emitCount canceledSeries) < 2 ^ 63 - 10000 \<and>
      rowsReturned passRow 9999 canceledSeries"
    using canceledSeries_rowsReturned
    by (simp add: canceledSeries_def newProjectSetProcessor_def)
  from cancel_check_every_10000_turns
    [where ps = canceledSeries and prh = passRow and n = 9999] h3
  have c3: "int 9999 \<le> 9999 - sint (emitCount canceledSeries) mod 10000"
    by blast
  from h1 c1 h2 c2 c2' h3 c3 show ?thesis by blast
qed

text \<open>
  C10 as stated fails where it counts calls of \<open>Next\<close>: the counter counts the turns of
  the loop, and a call takes a turn for every input row that yields no row of output.
  \<open>canceledEmpty\<close> is canceled from the start; its first call of \<open>Next\<close> takes 9999 turns
  over 9999 input rows without values, checks for cancellation in the turn after them and
  moves to Draining, with one input row still unread.
\<close>

theorem first_call_checks_counterexample:
  "State (psBase canceledEmpty) = StateRunning \<and>
   Ctx_Err canceledEmpty = Some ''context canceled'' \<and> emitCount canceledEmpty = 0 \<and>
   snd (projectSetProcessor_Next passRow canceledEmpty) =
     Returns (None, Some (ProducerMetadata (Some ''context canceled'') [])) \<and>
   State (psBase (fst (projectSetProcessor_Next passRow canceledEmpty))) = StateDraining \<and>
   emitCount (fst (projectSetProcessor_Next passRow canceledEmpty)) = 10000 \<and>
   input (fst (projectSetProcessor_Next passRow canceledEmpty)) = [Row [5]]"
proof -
  have "State (psBase canceledEmpty) = StateRunning \<and>
      Ctx_Err canceledEmpty = Some ''context canceled'' \<and> emitCount canceledEmpty = 0"
    by (simp add: canceledEmpty_def newProjectSetProcessor_def)
  moreover have "snd (projectSetProcessor_Next passRow canceledEmpty) =
      Returns (None, Some (ProducerMetadata (Some ''context canceled'') [])) \<and>
    State (psBase (fst (projectSetProcessor_Next passRow canceledEmpty))) = StateDraining \<and>
    emitCount (fst (projectSetProcessor_Next passRow canceledEmpty)) = 10000 \<and>
    input (fst (projectSetProcessor_Next passRow canceledEmpty)) = [Row [5]]"
    by (simp add: canceledEmpty_Next emptyAt_def newProjectSetProcessor_def)
  ultimately show ?thesis by blast
qed

section \<open>The outbox\<close>


























end
